theory Spec2Isabelle
  imports Main "HOL-Library.Word" "HOL-Library.Sublist"
begin

section \<open>Data model\<close>

text \<open>Operator identifiers, heights and rounds are unsigned 64-bit integers
  (\<open>uint64\<close>, as the message library the repository imports declares them); byte
  slices are lists of bytes. An \<open>error\<close> value is its
  message; \<open>None\<close> stands for Go's \<open>nil\<close> error, and a function returning
  \<open>(value, error)\<close> returns a sum with the error on the left.\<close>

type_synonym OperatorID = "64 word"
type_synonym Height = "64 word"
type_synonym Round = "64 word"
type_synonym bytes = "8 word list"
type_synonym err = "string option"

record Operator =
  OperatorID :: OperatorID
  PubKey :: bytes

text \<open>The share: the committee seen by one operator. \<open>Quorum\<close> and
  \<open>PartialQuorum\<close> are the \<open>uint64\<close> fields that \<open>ShareFromValidatorEvent\<close> fills.\<close>

record Share =
  ShareOperatorID :: OperatorID
  SharePubKey :: bytes
  ValidatorPubKey :: bytes
  OwnerAddress :: string
  Committee :: "Operator list"
  Quorum :: "64 word"
  PartialQuorum :: "64 word"
  DomainType :: bytes

section \<open>Building a share from a contract event\<close>

text \<open>\<open>ShareFromValidatorEvent\<close>. src holds two versions of it; the one embedded here
  takes a \<open>ValidatorAddedEvent\<close> and recognises this node's operator by its id. The
  version of operator/validator/utils.go recognises it by its public key and fills two
  more fields of the share; the lines that compute \<open>f\<close>, \<open>Quorum\<close> and
  \<open>PartialQuorum\<close> are the same in both. The event carries the validator key, the
  operators' ids and, per operator, a share public key and an encrypted share secret.\<close>

record ValidatorAddedEvent =
  PublicKey :: bytes
  EventOwnerAddress :: string
  OperatorIds :: "OperatorID list"
  SharePublicKeys :: "bytes list"
  EncryptedKeys :: "bytes list"

text \<open>What the function calls outside the repository: BLS key parsing, the operator's
  RSA key provider (\<open>Inr None\<close>: no error, key not found), RSA decoding, the parsing of
  the share secret, and the default domain.\<close>

record KeyEnv =
  Deserialize :: "bytes \<Rightarrow> string + bytes"
  shareEncryptionKeyProvider :: "string + bytes option"
  DecodeKey :: "bytes \<Rightarrow> bytes \<Rightarrow> string + string"
  SetHexString :: "string \<Rightarrow> string + bytes"
  GetDefaultDomain :: bytes

text \<open>\<open>strings.Replace(s, "0x", "", 1)\<close>: the first occurrence of \<open>0x\<close> is removed.\<close>

fun replace0x :: "string \<Rightarrow> string" where
  "replace0x (a # b # r) =
     (if a = CHR ''0'' \<and> b = CHR ''x'' then r else a # replace0x (b # r))"
| "replace0x s = s"

text \<open>Reading a slice at an index panics out of range.\<close>

definition index_or_panic :: "'a list \<Rightarrow> nat \<Rightarrow> string + 'a" where
  "index_or_panic xs i =
     (if i < length xs then Inr (xs ! i) else Inl ''panic: index out of range'')"

text \<open>The body of the loop over the operators, for the index \<open>i\<close>: the operator is
  appended to the committee, and when it is this node's operator the share secret is
  decrypted. The state is the share under construction, the secret and the committee.\<close>

definition committeeStep ::
  "KeyEnv \<Rightarrow> ValidatorAddedEvent \<Rightarrow> OperatorID \<Rightarrow> nat \<Rightarrow>
   Share \<times> bytes option \<times> Operator list \<Rightarrow> string + (Share \<times> bytes option \<times> Operator list)" where
  "committeeStep env ev ownID i st =
     (case st of (share, secret, committee) \<Rightarrow>
      let operatorID = OperatorIds ev ! i in
      case index_or_panic (SharePublicKeys ev) i of
        Inl e \<Rightarrow> Inl e
      | Inr pk \<Rightarrow>
          let committee' = committee @ [\<lparr>OperatorID = operatorID, PubKey = pk\<rparr>] in
          if operatorID = ownID then
            let share' = share\<lparr>ShareOperatorID := operatorID, SharePubKey := pk\<rparr> in
            (case shareEncryptionKeyProvider env of
               Inl e \<Rightarrow> Inl (''could not get operator private key: '' @ e)
             | Inr None \<Rightarrow> Inl ''could not find operator private key''
             | Inr (Some operatorPrivateKey) \<Rightarrow>
                 (case index_or_panic (EncryptedKeys ev) i of
                    Inl e \<Rightarrow> Inl e
                  | Inr enc \<Rightarrow>
                      (case DecodeKey env operatorPrivateKey enc of
                         Inl e \<Rightarrow> Inl (''failed to decrypt share private key: '' @ e)
                       | Inr decrypted \<Rightarrow>
                           (case SetHexString env (replace0x decrypted) of
                              Inl e \<Rightarrow> Inl (''failed to set decrypted share private key: '' @ e)
                            | Inr sk \<Rightarrow> Inr (share', Some sk, committee')))))
          else Inr (share, secret, committee'))"

fun committeeLoop ::
  "KeyEnv \<Rightarrow> ValidatorAddedEvent \<Rightarrow> OperatorID \<Rightarrow> nat list \<Rightarrow>
   Share \<times> bytes option \<times> Operator list \<Rightarrow> string + (Share \<times> bytes option \<times> Operator list)" where
  "committeeLoop env ev ownID [] st = Inr st"
| "committeeLoop env ev ownID (i # is) st =
     (case committeeStep env ev ownID i st of
        Inl e \<Rightarrow> Inl e
      | Inr st' \<Rightarrow> committeeLoop env ev ownID is st')"

definition emptyShare :: Share where
  "emptyShare = \<lparr>ShareOperatorID = 0, SharePubKey = [], ValidatorPubKey = [],
     OwnerAddress = [], Committee = [], Quorum = 0, PartialQuorum = 0, DomainType = []\<rparr>"

text \<open>\<open>f := uint64(len(committee)-1) / 3\<close>: the length is an \<open>int\<close>, and its
  conversion to \<open>uint64\<close> wraps, as the subtraction on the word does.\<close>

definition ShareFromValidatorEvent ::
  "KeyEnv \<Rightarrow> ValidatorAddedEvent \<Rightarrow> OperatorID \<Rightarrow> string + (Share \<times> bytes option)" where
  "ShareFromValidatorEvent env ev ownID =
     (case Deserialize env (PublicKey ev) of
        Inl e \<Rightarrow> Inl (''failed to deserialize validator public key: '' @ e)
      | Inr pk \<Rightarrow>
          let validatorShare = emptyShare\<lparr>ValidatorPubKey := pk,
                                          OwnerAddress := EventOwnerAddress ev\<rparr> in
          (case committeeLoop env ev ownID [0 ..< length (OperatorIds ev)]
                  (validatorShare, None, []) of
             Inl e \<Rightarrow> Inl e
           | Inr (share, shareSecret, committee) \<Rightarrow>
               let f = (word_of_nat (length committee) - 1 :: 64 word) div 3 in
               Inr (share\<lparr>Quorum := 3 * f, PartialQuorum := 2 * f,
                           DomainType := GetDefaultDomain env, Committee := committee\<rparr>,
                    shareSecret)))"

section \<open>Messages\<close>

datatype MessageType = ProposalMsgType | PrepareMsgType | CommitMsgType | RoundChangeMsgType

record Message =
  MsgType :: MessageType
  Height :: Height
  Round :: Round
  Identifier :: bytes
  Data :: bytes

text \<open>A signed message; a \<open>nil\<close> message pointer is \<open>None\<close> where the source can meet one.\<close>

record SignedMessage =
  Signature :: bytes
  Signers :: "OperatorID list"
  Message :: Message

text \<open>Two methods of the message library the repository calls. \<open>CommonSigners\<close> is true
  when at least one signer of the message is among the given ids; \<open>MatchedSigners\<close> is
  true when the message has as many signers as ids are given and each of its signers is
  among them.\<close>

definition CommonSigners :: "SignedMessage \<Rightarrow> OperatorID list \<Rightarrow> bool" where
  "CommonSigners m ids = list_ex (\<lambda>id. id \<in> set ids) (Signers m)"

definition MatchedSigners :: "SignedMessage \<Rightarrow> OperatorID list \<Rightarrow> bool" where
  "MatchedSigners m ids =
     (length (Signers m) = length ids \<and> list_all (\<lambda>id. id \<in> set ids) (Signers m))"

text \<open>Modelled from the spec: \<open>Share.HasQuorum\<close> and \<open>Share.HasPartialQuorum\<close> are not
  under src. The share holds \<open>Quorum = 2f+1\<close> and \<open>PartialQuorum = f+1\<close>, and a count
  reaches the (partial) quorum when it is at least that number.\<close>

definition HasQuorum :: "Share \<Rightarrow> nat \<Rightarrow> bool" where
  "HasQuorum share cnt = (unat (Quorum share) \<le> cnt)"

definition HasPartialQuorum :: "Share \<Rightarrow> nat \<Rightarrow> bool" where
  "HasPartialQuorum share cnt = (unat (PartialQuorum share) \<le> cnt)"

section \<open>The commit path\<close>

text \<open>A message container keeps, per round, the signed messages of one type in
  insertion order; a round never written reads as \<open>nil\<close> (\<open>None\<close>).\<close>

type_synonym MessageContainer = "Round \<Rightarrow> SignedMessage list option"

definition ReadOnlyMessagesByRound :: "MessageContainer \<Rightarrow> Round \<Rightarrow> SignedMessage list option" where
  "ReadOnlyMessagesByRound container round = container round"

text \<open>The inner loop of \<open>longestUniqueSignersForRoundAndValue\<close> over the messages after
  position \<open>i\<close>: a message over the value is added when none of its signers is among
  the signers collected so far.\<close>

fun longestInner ::
  "bytes \<Rightarrow> SignedMessage list \<Rightarrow> OperatorID list \<times> SignedMessage list \<Rightarrow>
   OperatorID list \<times> SignedMessage list" where
  "longestInner v [] cur = cur"
| "longestInner v (m2 # rest) (currentSigners, currentMsgs) =
     (if Data (Message m2) \<noteq> v then longestInner v rest (currentSigners, currentMsgs)
      else if \<not> CommonSigners m2 currentSigners
        then longestInner v rest (currentSigners @ Signers m2, currentMsgs @ [m2])
        else longestInner v rest (currentSigners, currentMsgs))"

text \<open>The outer loop: every message over the value starts a collection; a collection
  replaces the best one so far only when it has strictly more signers.\<close>

fun longestOuter ::
  "bytes \<Rightarrow> SignedMessage list \<Rightarrow> OperatorID list \<times> SignedMessage list \<Rightarrow>
   OperatorID list \<times> SignedMessage list" where
  "longestOuter v [] ret = ret"
| "longestOuter v (m # rest) (signersRet, msgsRet) =
     (if Data (Message m) \<noteq> v then longestOuter v rest (signersRet, msgsRet)
      else
        let cur = longestInner v rest (Signers m, [m]) in
        if length signersRet < length (fst cur) then longestOuter v rest cur
        else longestOuter v rest (signersRet, msgsRet))"

definition longestUniqueSignersForRoundAndValue ::
  "MessageContainer \<Rightarrow> Round \<Rightarrow> bytes \<Rightarrow> OperatorID list \<times> SignedMessage list" where
  "longestUniqueSignersForRoundAndValue container round v =
     (case ReadOnlyMessagesByRound container round of
        None \<Rightarrow> ([], [])
      | Some messagesByRound \<Rightarrow> longestOuter v messagesByRound ([], []))"






section \<open>The instance\<close>

datatype RoundState =
  RoundStateNotStarted | RoundStateProposal | RoundStatePrepare | RoundStateCommit
  | RoundStateChangeRound | RoundStateDecided | RoundStateStopped

text \<open>The instance state (\<open>qbft.State\<close>); the fields that share a name with a field of
  \<open>Message\<close> carry the prefix \<open>State\<close>.\<close>

record State =
  Stage :: RoundState
  StateIdentifier :: bytes
  StateHeight :: Height
  StateRound :: Round
  PreparedRound :: Round
  PreparedValue :: bytes
  ProposalAcceptedForCurrentRound :: "SignedMessage option"

text \<open>What an instance does to the outside is kept as a trace: timer resets, stage
  signals and messages handed to the network.\<close>

datatype Effect = TimerReset | StageSignal RoundState | Broadcast Message

record Instance =
  ValidatorShare :: Share
  State :: State
  ContainersMap :: "MessageType \<Rightarrow> MessageContainer"
  decidedMsg :: "SignedMessage option"
  processCommitQuorumOnce :: bool
  effects :: "Effect list"

text \<open>Modelled from the spec: \<open>ProcessStageChange\<close>, \<open>bumpToRound\<close> and
  \<open>ResetRoundTimer\<close> are not under src. A stage change stores the stage and signals it
  (``transition to''), bumping the round stores the round, and resetting the timer is
  an effect.\<close>

definition ProcessStageChange :: "RoundState \<Rightarrow> Instance \<Rightarrow> Instance" where
  "ProcessStageChange stage i =
     i\<lparr>State := (State i)\<lparr>Stage := stage\<rparr>, effects := effects i @ [StageSignal stage]\<rparr>"

definition bumpToRound :: "Round \<Rightarrow> Instance \<Rightarrow> Instance" where
  "bumpToRound round i = i\<lparr>State := (State i)\<lparr>StateRound := round\<rparr>\<rparr>"

definition ResetRoundTimer :: "Instance \<Rightarrow> Instance" where
  "ResetRoundTimer i = i\<lparr>effects := effects i @ [TimerReset]\<rparr>"


section \<open>The message library and the validation pipelines\<close>

text \<open>The payloads of a proposal and of a round change (field \<open>Data\<close> of the proposal
  is \<open>ProposalValue\<close> here; the round change's fields carry the prefix \<open>RC\<close>). The
  payloads of a prepare and of a commit are one byte slice.\<close>

record ProposalData =
  ProposalValue :: bytes
  RoundChangeJustification :: "SignedMessage list"
  PrepareJustification :: "SignedMessage list"

record RoundChangeData =
  RCPreparedValue :: bytes
  RCPreparedRound :: Round
  RCJustification :: "SignedMessage list"

type_synonym Pipeline = "SignedMessage \<Rightarrow> err"

text \<open>What the repository calls and src does not hold: the decoders and validators of
  the payloads, the encoder of a prepare payload, \<open>RoundChangeData.Prepared\<close>, the
  signature checks, and three validation stages (\<open>BasicMsgValidation\<close>, \<open>AuthorizeMsg\<close>,
  \<open>changeround.ValidateWithRound\<close>) that rest on them.\<close>

record Lib =
  GetProposalData :: "Message \<Rightarrow> string + ProposalData"
  GetPrepareData :: "Message \<Rightarrow> string + bytes"
  GetRoundChangeData :: "Message \<Rightarrow> string + RoundChangeData"
  ProposalDataValidate :: "ProposalData \<Rightarrow> err"
  PrepareDataValidate :: "bytes \<Rightarrow> err"
  EncodePrepareData :: "bytes \<Rightarrow> string + bytes"
  Prepared :: "RoundChangeData \<Rightarrow> bool"
  PubKeysByID :: "Share \<Rightarrow> OperatorID list \<Rightarrow> string + bytes list"
  VerifyAggregated :: "SignedMessage \<Rightarrow> bytes list \<Rightarrow> err"
  BasicMsgValidation :: Pipeline
  AuthorizeMsg :: "Share \<Rightarrow> Pipeline"
  ValidateWithRound :: "Share \<Rightarrow> Round \<Rightarrow> Pipeline"
  SignAndBroadcast :: "Message \<Rightarrow> err"

text \<open>Modelled from the spec: the \<open>pipelines\<close> and \<open>signedmsg\<close> packages are not under
  src. \<open>Combine\<close> runs the stages in order and returns the first error; the type, height
  and round checks compare the message's field with the expected value; a list of
  messages has a quorum when its unique signers reach the share's quorum.\<close>

fun Combine :: "Pipeline list \<Rightarrow> Pipeline" where
  "Combine [] m = None"
| "Combine (p # ps) m = (case p m of Some e \<Rightarrow> Some e | None \<Rightarrow> Combine ps m)"

definition MsgTypeCheck :: "MessageType \<Rightarrow> Pipeline" where
  "MsgTypeCheck expected m =
     (if MsgType (Message m) = expected then None else Some ''message type is wrong'')"

definition ValidateSequenceNumber :: "Height \<Rightarrow> Pipeline" where
  "ValidateSequenceNumber expected m =
     (if Height (Message m) = expected then None else Some ''message height is wrong'')"

definition ValidateRound :: "Round \<Rightarrow> Pipeline" where
  "ValidateRound expected m =
     (if Round (Message m) = expected then None else Some ''message round is wrong'')"

definition uniqueSigners :: "SignedMessage list \<Rightarrow> OperatorID list" where
  "uniqueSigners msgs = remdups (concat (map Signers msgs))"

definition HasQuorumMsgs :: "Share \<Rightarrow> SignedMessage list \<Rightarrow> bool" where
  "HasQuorumMsgs share msgs = HasQuorum share (length (uniqueSigners msgs))"

section \<open>Receiving a proposal\<close>

text \<open>Modelled from the spec: \<open>GeneratePrepareMessage\<close> is not under src; it is written
  after its sibling \<open>GenerateCommitMessage\<close>, which is: the payload is encoded and put
  into a message of the instance's height, round and identifier.\<close>

definition GeneratePrepareMessage :: "Lib \<Rightarrow> Instance \<Rightarrow> bytes \<Rightarrow> string + Message" where
  "GeneratePrepareMessage lib i v =
     (case EncodePrepareData lib v of
        Inl e \<Rightarrow> Inl e
      | Inr encodedPrepare \<Rightarrow>
          Inr \<lparr>MsgType = PrepareMsgType, Height = StateHeight (State i),
               Round = StateRound (State i), Identifier = StateIdentifier (State i),
               Data = encodedPrepare\<rparr>)"

text \<open>\<open>UponProposalMsg\<close>. The effect \<open>Broadcast\<close> records the message handed to
  \<open>SignAndBroadcast\<close>, whose error is returned.\<close>

definition UponProposalMsg :: "Lib \<Rightarrow> Instance \<Rightarrow> SignedMessage \<Rightarrow> err \<times> Instance" where
  "UponProposalMsg lib i signedMessage =
     (let i1 = i\<lparr>State := (State i)\<lparr>ProposalAcceptedForCurrentRound := Some signedMessage\<rparr>\<rparr>;
          newRound = Round (Message signedMessage);
          i2 = (if StateRound (State i1) < Round (Message signedMessage)
                then ResetRoundTimer (bumpToRound newRound i1) else i1)
      in case GetProposalData lib (Message signedMessage) of
           Inl e \<Rightarrow> (Some (''failed to get prepare message: '' @ e), i2)
         | Inr proposalData \<Rightarrow>
             let i3 = ProcessStageChange RoundStateProposal i2 in
             (case GeneratePrepareMessage lib i3 (ProposalValue proposalData) of
                Inl e \<Rightarrow> (Some (''could not create prepare msg: '' @ e), i3)
              | Inr broadcastMsg \<Rightarrow>
                  (SignAndBroadcast lib broadcastMsg,
                   i3\<lparr>effects := effects i3 @ [Broadcast broadcastMsg]\<rparr>)))"

section \<open>Validating a proposal\<close>

text \<open>The stages every accompanying round change goes through in \<open>Justify\<close>.\<close>

definition roundChangePipeline :: "Lib \<Rightarrow> Share \<Rightarrow> State \<Rightarrow> Round \<Rightarrow> Pipeline" where
  "roundChangePipeline lib share state round =
     Combine [BasicMsgValidation lib, MsgTypeCheck RoundChangeMsgType,
              ValidateSequenceNumber (StateHeight state), ValidateRound round,
              AuthorizeMsg lib share, ValidateWithRound lib share round]"

fun validateRoundChanges :: "Pipeline \<Rightarrow> SignedMessage list \<Rightarrow> err" where
  "validateRoundChanges p [] = None"
| "validateRoundChanges p (rc # rcs) =
     (case p rc of
        Some e \<Rightarrow> Some (''change round msg not valid: '' @ e)
      | None \<Rightarrow> validateRoundChanges p rcs)"

fun previouslyPrepared :: "Lib \<Rightarrow> SignedMessage list \<Rightarrow> string + bool" where
  "previouslyPrepared lib [] = Inr False"
| "previouslyPrepared lib (rc # rcMsgs) =
     (case GetRoundChangeData lib (Message rc) of
        Inl e \<Rightarrow> Inl (''could not get round change data: '' @ e)
      | Inr rcData \<Rightarrow> if Prepared lib rcData then Inr True else previouslyPrepared lib rcMsgs)"

text \<open>\<open>highestPrepared\<close>: the loop keeps the message with the highest prepared round
  seen so far, and replaces it only by a strictly higher one.\<close>

fun highestPreparedLoop ::
  "Lib \<Rightarrow> SignedMessage list \<Rightarrow> SignedMessage option \<Rightarrow> string + SignedMessage option" where
  "highestPreparedLoop lib [] ret = Inr ret"
| "highestPreparedLoop lib (rc # rcs) ret =
     (case GetRoundChangeData lib (Message rc) of
        Inl e \<Rightarrow> Inl (''could not get round change data: '' @ e)
      | Inr rcData \<Rightarrow>
          if \<not> Prepared lib rcData then highestPreparedLoop lib rcs ret
          else
            (case ret of
               None \<Rightarrow> highestPreparedLoop lib rcs (Some rc)
             | Some r \<Rightarrow>
                 (case GetRoundChangeData lib (Message r) of
                    Inl e \<Rightarrow> Inl (''could not get round change data: '' @ e)
                  | Inr retRCData \<Rightarrow>
                      if RCPreparedRound retRCData < RCPreparedRound rcData
                      then highestPreparedLoop lib rcs (Some rc)
                      else highestPreparedLoop lib rcs (Some r))))"

definition highestPrepared :: "Lib \<Rightarrow> SignedMessage list \<Rightarrow> string + SignedMessage option" where
  "highestPrepared lib roundChanges = highestPreparedLoop lib roundChanges None"

definition validateRoundChangeJustification ::
  "Lib \<Rightarrow> SignedMessage \<Rightarrow> Height \<Rightarrow> Round \<Rightarrow> bytes \<Rightarrow> Share \<Rightarrow> err" where
  "validateRoundChangeJustification lib signedPrepare height round v share =
     (if MsgType (Message signedPrepare) \<noteq> PrepareMsgType then Some ''prepare msg type is wrong''
      else if Height (Message signedPrepare) \<noteq> height then Some ''message height is wrong''
      else if Round (Message signedPrepare) \<noteq> round then Some ''round is wrong''
      else
        (case GetPrepareData lib (Message signedPrepare) of
           Inl e \<Rightarrow> Some (''could not get prepare data: '' @ e)
         | Inr prepareData \<Rightarrow>
             (case PrepareDataValidate lib prepareData of
                Some e \<Rightarrow> Some (''prepareData invalid: '' @ e)
              | None \<Rightarrow>
                  if prepareData \<noteq> v then Some ''prepare data != proposed data''
                  else
                    let qourum = HasQuorum share (length (Signers signedPrepare));
                        singleSigner = (length (Signers signedPrepare) = 1)
                    in if \<not> qourum \<and> \<not> singleSigner then Some ''prepare msg allows 1 signer''
                       else
                         (case PubKeysByID lib share (Signers signedPrepare) of
                            Inl e \<Rightarrow> Some (''change round could not get pubkey: '' @ e)
                          | Inr pks \<Rightarrow>
                              (case VerifyAggregated lib signedPrepare pks of
                                 Some e \<Rightarrow> Some (''invalid message signature: '' @ e)
                               | None \<Rightarrow> None)))))"

fun validatePrepares ::
  "Lib \<Rightarrow> SignedMessage list \<Rightarrow> Height \<Rightarrow> Round \<Rightarrow> bytes \<Rightarrow> Share \<Rightarrow> err" where
  "validatePrepares lib [] height round v share = None"
| "validatePrepares lib (rcj # prepares) height round v share =
     (case validateRoundChangeJustification lib rcj height round v share of
        Some e \<Rightarrow> Some ''signed prepare not valid''
      | None \<Rightarrow> validatePrepares lib prepares height round v share)"

definition Justify ::
  "Lib \<Rightarrow> Share \<Rightarrow> State \<Rightarrow> Round \<Rightarrow> SignedMessage list \<Rightarrow> SignedMessage list \<Rightarrow> bytes \<Rightarrow> err" where
  "Justify lib share state round roundChanges prepares proposedValue =
     (if round = 1 then None
      else
        (case validateRoundChanges (roundChangePipeline lib share state round) roundChanges of
           Some e \<Rightarrow> Some e
         | None \<Rightarrow>
             if \<not> HasQuorumMsgs share roundChanges then Some ''change round has not quorum''
             else
               (case previouslyPrepared lib roundChanges of
                  Inl e \<Rightarrow> Some (''could not calculate if previously prepared: '' @ e)
                | Inr prev \<Rightarrow>
                    if \<not> prev then None
                    else if \<not> HasQuorumMsgs share prepares then Some ''prepares has no quorum''
                    else
                      (case highestPrepared lib roundChanges of
                         Inl e \<Rightarrow> Some (''could not get highest prepared: '' @ e)
                       | Inr None \<Rightarrow> Some ''no highest prepared''
                       | Inr (Some highest) \<Rightarrow>
                           (case GetRoundChangeData lib (Message highest) of
                              Inl e \<Rightarrow> Some (''could not get round change data: '' @ e)
                            | Inr highestData \<Rightarrow>
                                if proposedValue \<noteq> RCPreparedValue highestData
                                then Some ''proposed data doesn't match highest prepared''
                                else validatePrepares lib prepares (StateHeight state)
                                       (RCPreparedRound highestData)
                                       (RCPreparedValue highestData) share)))))"

text \<open>\<open>ValidateProposalMsg\<close>; the leader resolver is a parameter, as in the source.\<close>

definition ValidateProposalMsg ::
  "Lib \<Rightarrow> Share \<Rightarrow> State \<Rightarrow> (Round \<Rightarrow> 64 word) \<Rightarrow> Pipeline" where
  "ValidateProposalMsg lib share state resolver signedMessage =
     (if length (Signers signedMessage) \<noteq> 1 then Some ''proposal msg allows 1 signer''
      else
        let leader = resolver (Round (Message signedMessage)) in
        if \<not> MatchedSigners signedMessage [leader] then Some ''proposal leader invalid''
        else
          (case GetProposalData lib (Message signedMessage) of
             Inl e \<Rightarrow> Some (''could not get proposal data: '' @ e)
           | Inr proposalData \<Rightarrow>
               (case ProposalDataValidate lib proposalData of
                  Some e \<Rightarrow> Some (''proposalData invalid: '' @ e)
                | None \<Rightarrow>
                    (case Justify lib share state (Round (Message signedMessage))
                            (RoundChangeJustification proposalData)
                            (PrepareJustification proposalData) (ProposalValue proposalData) of
                       Some e \<Rightarrow> Some (''proposal not justified: '' @ e)
                     | None \<Rightarrow>
                         let proposalAcceptedForCurrentRound = ProposalAcceptedForCurrentRound state;
                             round = StateRound state
                         in if (proposalAcceptedForCurrentRound = None \<and>
                                  Round (Message signedMessage) = round) \<or>
                               (proposalAcceptedForCurrentRound \<noteq> None \<and>
                                  round < Round (Message signedMessage))
                            then None
                            else Some ''proposal is not valid with current state''))))"

section \<open>The controller: future messages and height\<close>

text \<open>The controller of protocol/qbft/controller. \<open>FutureMsgsContainer\<close> is a Go map
  from signer to height, kept as the list of its entries (one per signer); the loop
  over it keeps or drops each entry on its own, so its result does not depend on the
  order of the visit. \<open>syncRequests\<close> records the calls of \<open>SyncHighestDecided\<close>.\<close>

record Controller =
  CtrlIdentifier :: bytes
  CtrlHeight :: Height
  CtrlShare :: Share
  FutureMsgsContainer :: "(OperatorID \<times> Height) list"
  syncRequests :: "bytes list"

text \<open>The configuration and the calls that leave the repository: the message's own
  validation, the signature check against the committee, and the network's sync.\<close>

record Config =
  Validate :: "SignedMessage \<Rightarrow> err"
  GetSignatureDomainType :: bytes
  VerifyByOperators :: "SignedMessage \<Rightarrow> bytes \<Rightarrow> Operator list \<Rightarrow> err"
  SyncHighestDecided :: "bytes \<Rightarrow> err"

definition validateFutureMsg :: "Config \<Rightarrow> SignedMessage \<Rightarrow> Operator list \<Rightarrow> err" where
  "validateFutureMsg config msg operators =
     (case Validate config msg of
        Some e \<Rightarrow> Some (''invalid decided msg: '' @ e)
      | None \<Rightarrow>
          if length (Signers msg) \<noteq> 1 then Some ''allows 1 signer''
          else
            (case VerifyByOperators config msg (GetSignatureDomainType config) operators of
               Some e \<Rightarrow> Some (''msg signature invalid: '' @ e)
             | None \<Rightarrow> None))"

text \<open>\<open>addHigherHeightMsg\<close>: entries at or below the controller's height are dropped; the
  message is added only when its signer has no entry left. Reading the first signer of
  a message without signers panics.\<close>

definition addHigherHeightMsg :: "Controller \<Rightarrow> SignedMessage \<Rightarrow> string + (bool \<times> Controller)" where
  "addHigherHeightMsg c msg =
     (case Signers msg of
        [] \<Rightarrow> Inl ''panic: index out of range''
      | signer0 # _ \<Rightarrow>
          let cleanedQueue = filter (\<lambda>(signer, height). \<not> height \<le> CtrlHeight c)
                               (FutureMsgsContainer c);
              signerExists = list_ex (\<lambda>(signer, height). signer = signer0) cleanedQueue;
              cleanedQueue' = (if \<not> signerExists
                               then cleanedQueue @ [(signer0, Height (Message msg))]
                               else cleanedQueue)
          in Inr (\<not> signerExists, c\<lparr>FutureMsgsContainer := cleanedQueue'\<rparr>))"

definition f1SyncTrigger :: "Controller \<Rightarrow> bool" where
  "f1SyncTrigger c = HasPartialQuorum (CtrlShare c) (length (FutureMsgsContainer c))"

text \<open>\<open>UponFutureMsg\<close> returns no message in any case; the model returns its error and
  the controller.\<close>

definition UponFutureMsg :: "Config \<Rightarrow> Controller \<Rightarrow> SignedMessage \<Rightarrow> err \<times> Controller" where
  "UponFutureMsg config c msg =
     (case validateFutureMsg config msg (Committee (CtrlShare c)) of
        Some e \<Rightarrow> (Some (''invalid future msg: '' @ e), c)
      | None \<Rightarrow>
          (case addHigherHeightMsg c msg of
             Inl e \<Rightarrow> (Some e, c)
           | Inr (added, c') \<Rightarrow>
               if \<not> added then (Some ''discarded future msg'', c')
               else if f1SyncTrigger c'
                 then (SyncHighestDecided config (CtrlIdentifier c'),
                       c'\<lparr>syncRequests := syncRequests c' @ [CtrlIdentifier c']\<rparr>)
                 else (None, c')))"

text \<open>The controller of protocol/v1/qbft/controller. Its \<open>State\<close> is one of seven
  flags, each with a name for the error texts; its height is kept in an atomic value,
  empty (\<open>None\<close>) until the first store. \<open>New\<close> returns a controller that is
  \<open>NotStarted\<close> and has stored no height.\<close>

datatype ControllerState =
  NotStarted | InitiatedHandlers | SyncedChangeRound | WaitingForPeers | FoundPeers | Ready | Forking

definition stateStringMap :: "ControllerState \<Rightarrow> string" where
  "stateStringMap s =
     (case s of
        NotStarted \<Rightarrow> ''notStarted''
      | InitiatedHandlers \<Rightarrow> ''initiatedHandlers''
      | SyncedChangeRound \<Rightarrow> ''syncedChangedRound''
      | WaitingForPeers \<Rightarrow> ''waitingForPeers''
      | FoundPeers \<Rightarrow> ''foundPeers''
      | Ready \<Rightarrow> ''ready''
      | Forking \<Rightarrow> ''forking'')"

record ControllerV1 =
  CtrlState :: ControllerState
  height :: "Height option"








definition initialized :: "ControllerV1 \<Rightarrow> err" where
  "initialized c =
     (if CtrlState c = Ready then None
      else if CtrlState c = Forking then Some ''forking in progress''
      else Some (''controller hasn't initialized yet. current state - '' @
                 stateStringMap (CtrlState c)))"

text \<open>Modelled from the spec: \<open>canStartNewInstance\<close> is not under src; its caller
  \<open>StartInstance\<close> and its test are. The spec: ``Only Ready accepts StartInstance'',
  which ``require[s] height == controller.height + 1 OR height == 0 if no prior
  decided''. The test fixes what the height is compared with: the highest decided
  message of the storage, the one \<open>setInitialHeight\<close> takes the controller's height
  from (over a storage decided up to 10 and a controller that has stored no height,
  11 is accepted, 10 and 12 are refused with ``instance seq invalid''; over an empty
  storage 0 is accepted). So the height must be the one after the highest decided
  height or, with nothing decided, 0. The test's last refusal, an instance that is
  still running, is a parameter: the error of that check.\<close>

definition canStartNewInstance :: "ControllerV1 \<Rightarrow> SignedMessage option \<Rightarrow> err \<Rightarrow> Height \<Rightarrow> err" where
  "canStartNewInstance c highestKnownDecided stillRunning optsHeight =
     (case initialized c of
        Some e \<Rightarrow> Some e
      | None \<Rightarrow>
          if (case highestKnownDecided of
                None \<Rightarrow> optsHeight \<noteq> 0
              | Some decided \<Rightarrow> optsHeight \<noteq> Height (Message decided) + 1)
          then Some ''instance seq invalid''
          else stillRunning)"










section \<open>The decided-history handler\<close>

datatype StatusCode =
  StatusUnknown | StatusSuccess | StatusNotFound | StatusError | StatusBadRequest
  | StatusInternalError | StatusBackoff

datatype SyncMsgType = LastDecidedType | LastChangeRoundType | DecidedHistoryType

record SyncParams =
  ParamsHeight :: "Height list"
  ParamsIdentifier :: bytes

text \<open>\<open>Params\<close> is a pointer and \<open>Data\<close> a slice of pointers: \<open>None\<close> is \<open>nil\<close>.\<close>

record SyncMessage =
  Protocol :: SyncMsgType
  Params :: "SyncParams option"
  SyncData :: "SignedMessage option list"
  Status :: StatusCode

record StoredInstance =
  DecidedMessage :: "SignedMessage option"

text \<open>\<open>UpdateResults\<close>. Writing through a \<open>nil\<close> \<open>Params\<close> and reading the height of a
  \<open>nil\<close> last result panic.\<close>

definition UpdateResults ::
  "err \<Rightarrow> SignedMessage option list \<Rightarrow> SyncMessage \<Rightarrow> string + SyncMessage" where
  "UpdateResults e results sm =
     (if e \<noteq> None then Inr (sm\<lparr>Status := StatusInternalError\<rparr>)
      else
        (case results of
           [] \<Rightarrow> Inr (sm\<lparr>Status := StatusNotFound\<rparr>)
         | None # _ \<Rightarrow> Inr (sm\<lparr>Status := StatusNotFound\<rparr>)
         | Some first # _ \<Rightarrow>
             (case Params sm of
                None \<Rightarrow> Inl ''panic: nil pointer dereference''
              | Some params \<Rightarrow>
                  let nResults = length results in
                  if nResults > 1 then
                    (case last results of
                       None \<Rightarrow> Inl ''panic: nil pointer dereference''
                     | Some lastMsg \<Rightarrow>
                         Inr (sm\<lparr>SyncData := results,
                                  Params := Some (params\<lparr>ParamsHeight :=
                                    [Height (Message first), Height (Message lastMsg)]\<rparr>),
                                  Status := StatusSuccess\<rparr>))
                  else
                    Inr (sm\<lparr>SyncData := results,
                             Params := Some (params\<lparr>ParamsHeight := [Height (Message first)]\<rparr>),
                             Status := StatusSuccess\<rparr>))))"

text \<open>What the handler returns: no response (another protocol), an error, or the sync
  message it encodes into the response.\<close>

datatype HandlerResult = NoResponse | HandlerError string | Response SyncMessage

text \<open>The store of the message's role (\<open>None\<close>: no store for the role) is a parameter: its
  \<open>GetInstancesInRange\<close> takes the two bounds and returns the instances and an error.\<close>

type_synonym InstanceStore = "Height \<Rightarrow> Height \<Rightarrow> StoredInstance list \<times> err"

text \<open>The window: \<open>items := int(Height[1] - Height[0])\<close> subtracts on \<open>uint64\<close> and reads
  the difference as a signed \<open>int\<close> (\<open>sint\<close>); \<open>maxBatchSize\<close> is an \<open>int\<close>, kept as
  its 64 bits, and \<open>specqbft.Height(maxBatchSize)\<close> is those bits.\<close>

definition clampHeights :: "64 word \<Rightarrow> Height list \<Rightarrow> string + Height list" where
  "clampHeights maxBatchSize hs =
     (if length hs < 2 then Inl ''panic: index out of range''
      else
        let items = sint (hs ! 1 - hs ! 0) in
        if items > sint maxBatchSize then Inr (hs[1 := hs ! 0 + maxBatchSize])
        else Inr hs)"

text \<open>\<open>HistoryHandler\<close>. The decoding of the request is a parameter: the message as
  decoded and the decoder's error; so is the error of the final encoding. The report
  to the validation reporter on a decoding error is an effect outside the model, and the
  error for a missing store is kept without the role's name that ends it.\<close>

definition HistoryHandler ::
  "InstanceStore option \<Rightarrow> (SyncMessage \<Rightarrow> err) \<Rightarrow> 64 word \<Rightarrow> SyncMessage \<times> err \<Rightarrow> HandlerResult" where
  "HistoryHandler store encodeErr maxBatchSize decoded =
     (case decoded of (sm, decodeErr) \<Rightarrow>
      let finish = (\<lambda>sm'. case encodeErr sm' of
                             Some e \<Rightarrow> HandlerError (''could not encode result data: '' @ e)
                           | None \<Rightarrow> Response sm')
      in
      if decodeErr \<noteq> None then finish (sm\<lparr>Status := StatusBadRequest\<rparr>)
      else if Protocol sm \<noteq> DecidedHistoryType then NoResponse
      else
        (case Params sm of
           None \<Rightarrow> HandlerError ''panic: nil pointer dereference''
         | Some params \<Rightarrow>
             (case clampHeights maxBatchSize (ParamsHeight params) of
                Inl e \<Rightarrow> HandlerError e
              | Inr hs \<Rightarrow>
                  let sm1 = sm\<lparr>Params := Some (params\<lparr>ParamsHeight := hs\<rparr>)\<rparr> in
                  (case store of
                     None \<Rightarrow> HandlerError ''not storage found for type''
                   | Some getInstancesInRange \<Rightarrow>
                       (case getInstancesInRange (hs ! 0) (hs ! 1) of
                          (instances, e) \<Rightarrow>
                            let results = map DecidedMessage instances in
                            (case UpdateResults e results sm1 of
                               Inl p \<Rightarrow> HandlerError p
                             | Inr sm2 \<Rightarrow> finish sm2))))))"

section \<open>The claims' own words\<close>

text \<open>A collection of messages has pairwise disjoint signer sets; the number of
  signers of a collection; and the claim about \<open>longestUniqueSignersForRoundAndValue\<close> as
  the spec words it: the collection is a sub-collection of the stored messages over the
  value, pairwise disjoint, and no pairwise disjoint sub-collection has more signers.\<close>

fun disjointSigners :: "SignedMessage list \<Rightarrow> bool" where
  "disjointSigners [] = True"
| "disjointSigners (m # ms) =
     (list_all (\<lambda>m'. set (Signers m) \<inter> set (Signers m') = {}) ms \<and> disjointSigners ms)"

definition signerCount :: "SignedMessage list \<Rightarrow> nat" where
  "signerCount msgs = length (concat (map Signers msgs))"

text \<open>The greedy collection from a start: going through the later messages in order,
  a message over the value is taken when it shares no signer with any message taken so
  far, and passed over otherwise. \<open>greedyCollections\<close> lists, in the order of their
  starts, the greedy collections of the messages over the value, each started from one
  of them and continued over the messages stored after it.\<close>

fun greedyCollection :: "bytes \<Rightarrow> SignedMessage list \<Rightarrow> SignedMessage list \<Rightarrow> SignedMessage list" where
  "greedyCollection v taken [] = taken"
| "greedyCollection v taken (x # later) =
     greedyCollection v
       (if Data (Message x) = v \<and> list_all (\<lambda>t. set (Signers t) \<inter> set (Signers x) = {}) taken
        then taken @ [x] else taken)
       later"

fun greedyCollections :: "bytes \<Rightarrow> SignedMessage list \<Rightarrow> SignedMessage list list" where
  "greedyCollections v [] = []"
| "greedyCollections v (m # later) =
     (if Data (Message m) = v then [greedyCollection v [m] later] else []) @
     greedyCollections v later"

definition largestDisjointCollection :: "SignedMessage list \<Rightarrow> bytes \<Rightarrow> SignedMessage list \<Rightarrow> bool" where
  "largestDisjointCollection stored v msgs =
     (msgs \<in> set (subseqs (filter (\<lambda>m. Data (Message m) = v) stored)) \<and>
      disjointSigners msgs \<and>
      list_all (\<lambda>c. \<not> disjointSigners c \<or> signerCount c \<le> signerCount msgs)
        (subseqs (filter (\<lambda>m. Data (Message m) = v) stored)))"

text \<open>The prepared round a round-change message carries: none when its payload does
  not decode or is not prepared.\<close>

definition preparedRoundOf :: "Lib \<Rightarrow> SignedMessage \<Rightarrow> Round option" where
  "preparedRoundOf lib rc =
     (case GetRoundChangeData lib (Message rc) of
        Inl e \<Rightarrow> None
      | Inr d \<Rightarrow> if Prepared lib d then Some (RCPreparedRound d) else None)"

text \<open>The claim about \<open>Justify\<close> as the spec words it: the round is 1, or a quorum of
  valid round changes accompanies the proposal and either every accompanying round
  change is unprepared, or the value is the prepared value of an accompanying round
  change of maximum prepared round and a quorum of prepares valid for the height, that
  round and the value accompanies it too.\<close>

definition JustifyProposal_spec ::
  "Lib \<Rightarrow> Share \<Rightarrow> State \<Rightarrow> Round \<Rightarrow> SignedMessage list \<Rightarrow> SignedMessage list \<Rightarrow> bytes \<Rightarrow> bool" where
  "JustifyProposal_spec lib share state round roundChanges prepares v =
     (round = 1 \<or>
      (HasQuorumMsgs share
         (filter (\<lambda>rc. roundChangePipeline lib share state round rc = None) roundChanges) \<and>
       (list_all (\<lambda>rc. preparedRoundOf lib rc = None) roundChanges \<or>
        list_ex (\<lambda>rc.
            case GetRoundChangeData lib (Message rc) of
              Inl e \<Rightarrow> False
            | Inr d \<Rightarrow>
                Prepared lib d \<and>
                list_all (\<lambda>rc'. case preparedRoundOf lib rc' of
                                   None \<Rightarrow> True
                                 | Some q \<Rightarrow> q \<le> RCPreparedRound d) roundChanges \<and>
                v = RCPreparedValue d \<and>
                HasQuorumMsgs share
                  (filter (\<lambda>p. validateRoundChangeJustification lib p (StateHeight state)
                                  (RCPreparedRound d) v share = None) prepares))
          roundChanges)))"

section \<open>Concrete inputs\<close>

text \<open>A committee of four and one of seven operators, a library whose decoders read
  the payload as it stands and whose checks pass, and messages over them: the inputs
  at which the theorems below are evaluated.\<close>

definition exampleKeyEnv :: KeyEnv where
  "exampleKeyEnv = \<lparr>Deserialize = (\<lambda>b. Inr b), shareEncryptionKeyProvider = Inr (Some [1]),
     DecodeKey = (\<lambda>k e. Inr ''0xab''), SetHexString = (\<lambda>s. Inr [171]), GetDefaultDomain = [0]\<rparr>"

definition sevenOperatorsEvent :: ValidatorAddedEvent where
  "sevenOperatorsEvent = \<lparr>PublicKey = [9], EventOwnerAddress = ''owner'',
     OperatorIds = [1, 2, 3, 4, 5, 6, 7],
     SharePublicKeys = [[1], [2], [3], [4], [5], [6], [7]],
     EncryptedKeys = [[1], [2], [3], [4], [5], [6], [7]]\<rparr>"

definition exampleLib :: Lib where
  "exampleLib = \<lparr>
     GetProposalData = (\<lambda>m. Inr \<lparr>ProposalValue = Data m, RoundChangeJustification = [],
                                  PrepareJustification = []\<rparr>),
     GetPrepareData = (\<lambda>m. Inr (Data m)),
     GetRoundChangeData = (\<lambda>m. case Data m of
         [] \<Rightarrow> Inr \<lparr>RCPreparedValue = [], RCPreparedRound = 0, RCJustification = []\<rparr>
       | r # v \<Rightarrow> Inr \<lparr>RCPreparedValue = v, RCPreparedRound = ucast r, RCJustification = []\<rparr>),
     ProposalDataValidate = (\<lambda>d. None),
     PrepareDataValidate = (\<lambda>d. None),
     EncodePrepareData = (\<lambda>v. Inr v),
     Prepared = (\<lambda>d. RCPreparedRound d \<noteq> 0 \<or> RCPreparedValue d \<noteq> []),
     PubKeysByID = (\<lambda>share ids. Inr []),
     VerifyAggregated = (\<lambda>m pks. None),
     BasicMsgValidation = (\<lambda>m. None),
     AuthorizeMsg = (\<lambda>share m. None),
     ValidateWithRound = (\<lambda>share round m. None),
     SignAndBroadcast = (\<lambda>m. None)\<rparr>"

definition committeeOfFour :: Share where
  "committeeOfFour = \<lparr>ShareOperatorID = 1, SharePubKey = [1], ValidatorPubKey = [9],
     OwnerAddress = ''owner'',
     Committee = [\<lparr>OperatorID = 1, PubKey = [1]\<rparr>, \<lparr>OperatorID = 2, PubKey = [2]\<rparr>,
                  \<lparr>OperatorID = 3, PubKey = [3]\<rparr>, \<lparr>OperatorID = 4, PubKey = [4]\<rparr>],
     Quorum = 3, PartialQuorum = 2, DomainType = [0]\<rparr>"

text \<open>Modelled from the spec: the round-robin leader selector is not under src;
  \<open>leader(round) = ((height + round - 1) mod N) + 1\<close>.\<close>

definition roundRobinLeader :: "Height \<Rightarrow> 64 word \<Rightarrow> Round \<Rightarrow> 64 word" where
  "roundRobinLeader h n round = ((h + round - 1) mod n) + 1"

definition signedBy :: "OperatorID list \<Rightarrow> MessageType \<Rightarrow> Height \<Rightarrow> Round \<Rightarrow> bytes \<Rightarrow> SignedMessage" where
  "signedBy signers t h r d =
     \<lparr>Signature = [], Signers = signers,
      Message = \<lparr>MsgType = t, Height = h, Round = r, Identifier = [7], Data = d\<rparr>\<rparr>"

definition freshState :: State where
  "freshState = \<lparr>Stage = RoundStateNotStarted, StateIdentifier = [7], StateHeight = 0,
     StateRound = 1, PreparedRound = 0, PreparedValue = [],
     ProposalAcceptedForCurrentRound = None\<rparr>"

definition freshInstance :: Instance where
  "freshInstance = \<lparr>ValidatorShare = committeeOfFour, State = freshState,
     ContainersMap = (\<lambda>t r. None), decidedMsg = None, processCommitQuorumOnce = False,
     effects = []\<rparr>"

definition unpreparedRoundChanges :: "Round \<Rightarrow> SignedMessage list" where
  "unpreparedRoundChanges r =
     [signedBy [1] RoundChangeMsgType 0 r [], signedBy [2] RoundChangeMsgType 0 r [],
      signedBy [3] RoundChangeMsgType 0 r []]"

definition justifyingLib :: Lib where
  "justifyingLib = exampleLib\<lparr>GetProposalData :=
     (\<lambda>m. Inr \<lparr>ProposalValue = Data m,
                RoundChangeJustification = unpreparedRoundChanges (Round m),
                PrepareJustification = []\<rparr>)\<rparr>"

definition acceptedState :: State where
  "acceptedState = freshState\<lparr>ProposalAcceptedForCurrentRound :=
     Some (signedBy [1] ProposalMsgType 0 1 [1, 2, 3, 4])\<rparr>"

text \<open>A commit container whose round 1 holds three commits over the same value, signed
  by \<open>{1}\<close>, \<open>{2}\<close> and \<open>{2,3,4}\<close>, and one that holds commits by \<open>{1,2}\<close> and \<open>{3}\<close>.\<close>

definition commitsOf :: "OperatorID list list \<Rightarrow> SignedMessage list" where
  "commitsOf signerSets = map (\<lambda>s. signedBy s CommitMsgType 0 1 [1, 2, 3, 4]) signerSets"

definition containerOf :: "SignedMessage list \<Rightarrow> MessageContainer" where
  "containerOf msgs = (\<lambda>r. if r = 1 then Some msgs else None)"



text \<open>A configuration whose checks pass and whose sync succeeds, and a controller at
  height 5 with a given buffer of future messages.\<close>

definition permissiveConfig :: Config where
  "permissiveConfig = \<lparr>Validate = (\<lambda>m. None), GetSignatureDomainType = [0],
     VerifyByOperators = (\<lambda>m domain operators. None), SyncHighestDecided = (\<lambda>identifier. None)\<rparr>"

definition controllerAtFive :: "(OperatorID \<times> Height) list \<Rightarrow> Controller" where
  "controllerAtFive buffer = \<lparr>CtrlIdentifier = [7], CtrlHeight = 5, CtrlShare = committeeOfFour,
     FutureMsgsContainer = buffer, syncRequests = []\<rparr>"

text \<open>Modelled from the spec: the store's \<open>GetInstancesInRange\<close> is not under src; it
  ``returns every persisted historical record in ascending height'' of the range. The
  store is given by its records in ascending height. A decided-history request for a
  range of heights.\<close>

definition decidedAt :: "Height \<Rightarrow> StoredInstance" where
  "decidedAt h = \<lparr>DecidedMessage = Some (signedBy [1, 2, 3] CommitMsgType h 1 [1, 2, 3, 4])\<rparr>"

definition storeOf :: "StoredInstance list \<Rightarrow> InstanceStore" where
  "storeOf records from to =
     (filter (\<lambda>i. case DecidedMessage i of
                     None \<Rightarrow> False
                   | Some d \<Rightarrow> from \<le> Height (Message d) \<and> Height (Message d) \<le> to) records,
      None)"

definition historyRequest :: "Height \<Rightarrow> Height \<Rightarrow> SyncMessage" where
  "historyRequest from to =
     \<lparr>Protocol = DecidedHistoryType,
      Params = Some \<lparr>ParamsHeight = [from, to], ParamsIdentifier = [7]\<rparr>,
      SyncData = [], Status = StatusUnknown\<rparr>"

text \<open>Two round changes of the same prepared round 1 with the values \<open>[5]\<close> and
  \<open>[6]\<close> and an unprepared one, all for round 2, and prepares of round 1 over
  \<open>[6]\<close>.\<close>

definition tiedRoundChanges :: "SignedMessage list" where
  "tiedRoundChanges =
     [signedBy [1] RoundChangeMsgType 0 2 [1, 5], signedBy [2] RoundChangeMsgType 0 2 [1, 6],
      signedBy [3] RoundChangeMsgType 0 2 []]"

definition preparesFor :: "bytes \<Rightarrow> SignedMessage list" where
  "preparesFor v =
     [signedBy [1] PrepareMsgType 0 1 v, signedBy [2] PrepareMsgType 0 1 v,
      signedBy [3] PrepareMsgType 0 1 v]"

section \<open>Theorems\<close>

lemma committeeStep_length:
  "committeeStep env ev ownID i (sh, sec, com) = Inr (sh', sec', com') \<Longrightarrow>
   length com' = Suc (length com)"
  by (auto simp: committeeStep_def Let_def split: sum.splits option.splits if_splits)

lemma committeeLoop_length:
  "committeeLoop env ev ownID is (sh, sec, com) = Inr (sh', sec', com') \<Longrightarrow>
   length com' = length com + length is"
proof (induction "is" arbitrary: sh sec com)
  case Nil
  then show ?case by simp
next
  case (Cons i "is")
  from Cons.prems obtain sh1 sec1 com1 where
    step: "committeeStep env ev ownID i (sh, sec, com) = Inr (sh1, sec1, com1)" and
    rest: "committeeLoop env ev ownID is (sh1, sec1, com1) = Inr (sh', sec', com')"
    by (auto split: sum.splits)
  from committeeStep_length [OF step] Cons.IH [OF rest] show ?case by simp
qed

lemma ShareFromValidatorEvent_quorum:
  assumes "ShareFromValidatorEvent env ev ownID = Inr (share, secret)"
  shows "Quorum share = 3 * ((word_of_nat (length (OperatorIds ev)) - 1) div 3) \<and>
         PartialQuorum share = 2 * ((word_of_nat (length (OperatorIds ev)) - 1) div 3) \<and>
         length (Committee share) = length (OperatorIds ev)"
proof -
  from assms obtain pk sh sec com where
    loop: "committeeLoop env ev ownID [0 ..< length (OperatorIds ev)]
             (emptyShare\<lparr>ValidatorPubKey := pk, OwnerAddress := EventOwnerAddress ev\<rparr>, None, [])
           = Inr (sh, sec, com)" and
    res: "share = sh\<lparr>Quorum := 3 * ((word_of_nat (length com) - 1) div 3),
                      PartialQuorum := 2 * ((word_of_nat (length com) - 1) div 3),
                      DomainType := GetDefaultDomain env, Committee := com\<rparr>"
    by (auto simp: ShareFromValidatorEvent_def Let_def split: sum.splits prod.splits)
  from committeeLoop_length [OF loop] have "length com = length (OperatorIds ev)" by simp
  with res show ?thesis by simp
qed

subsection \<open>C1: the quorum of a share built from an event\<close>

lemma unat_of_nat64: "n < 2 ^ 64 \<Longrightarrow> unat (word_of_nat n :: 64 word) = n"
  by (simp add: unat_of_nat)

lemma word_3f_div_3:
  assumes "3 * f + 1 < 2 ^ 64"
  shows "(word_of_nat (3 * f + 1) - 1 :: 64 word) div 3 = word_of_nat f"
proof -
  have A: "unat (word_of_nat (3 * f) :: 64 word) = 3 * f"
    by (rule unat_of_nat64) (use assms in simp)
  have B: "unat (word_of_nat f :: 64 word) = f"
    by (rule unat_of_nat64) (use assms in simp)
  have "unat ((word_of_nat (3 * f) :: 64 word) div 3) =
        unat (word_of_nat (3 * f) :: 64 word) div unat (3 :: 64 word)"
    by (rule unat_div)
  also have "\<dots> = f" unfolding A by simp
  finally have "unat ((word_of_nat (3 * f) :: 64 word) div 3) = unat (word_of_nat f :: 64 word)"
    unfolding B .
  then have "(word_of_nat (3 * f) :: 64 word) div 3 = word_of_nat f"
    by (rule word_unat_eq_iff [THEN iffD2])
  moreover have "(word_of_nat (3 * f + 1) - 1 :: 64 word) = word_of_nat (3 * f)"
    by simp
  ultimately show ?thesis by (simp only:)
qed

lemma ShareFromValidatorEvent_3f1:
  assumes "ShareFromValidatorEvent env ev ownID = Inr (share, secret)"
    and "length (OperatorIds ev) = 3 * f + 1" and "3 * f + 1 < 2 ^ 64"
  shows "Quorum share = 3 * word_of_nat f \<and> PartialQuorum share = 2 * word_of_nat f"
  using ShareFromValidatorEvent_quorum [OF assms(1)]
  unfolding assms(2) word_3f_div_3 [OF assms(3)] by simp

text \<open>C1 (the code departs from the claim). The claim: for a committee of size
  \<open>N = 3f+1\<close> the share has \<open>Quorum = 2f+1\<close> and \<open>PartialQuorum = f+1\<close>. The code
  stores \<open>3 * f\<close> and \<open>2 * f\<close> (lemma \<open>ShareFromValidatorEvent_3f1\<close>); for the
  committee of seven operators (\<open>f = 2\<close>) the share built by \<open>ShareFromValidatorEvent\<close>
  has \<open>Quorum = 6\<close> and \<open>PartialQuorum = 4\<close>, where the claim says 5 and 3.\<close>

theorem ShareFromValidatorEvent_seven_operators:
  "map_sum id (\<lambda>(share, secret). (Quorum share, PartialQuorum share, length (Committee share)))
     (ShareFromValidatorEvent exampleKeyEnv sevenOperatorsEvent 3) = Inr (6, 4, 7)"
  by (simp add: ShareFromValidatorEvent_def exampleKeyEnv_def sevenOperatorsEvent_def
        committeeStep_def index_or_panic_def emptyShare_def upt_rec Let_def)

subsection \<open>C6 and C10: the leader and the state checks of a proposal\<close>

lemma MatchedSigners_single: "MatchedSigners m [l] \<longleftrightarrow> Signers m = [l]"
  by (cases "Signers m") (auto simp: MatchedSigners_def list_all_iff length_Suc_conv)

text \<open>C6. \<open>ValidateProposalMsg\<close> accepts a message only when its signers are exactly the
  leader the resolver gives for the message's round; a message with another number of
  signers is rejected with \<open>proposal msg allows 1 signer\<close>, and a message signed by one
  operator who is not that leader (in round 1 as in any other) is rejected with
  \<open>proposal leader invalid\<close>.\<close>

theorem ValidateProposalMsg_leader:
  "(ValidateProposalMsg lib share state resolver m = None \<longrightarrow>
      Signers m = [resolver (Round (Message m))]) \<and>
   (length (Signers m) \<noteq> 1 \<longrightarrow>
      ValidateProposalMsg lib share state resolver m = Some ''proposal msg allows 1 signer'') \<and>
   (Signers m = [s] \<and> s \<noteq> resolver (Round (Message m)) \<longrightarrow>
      ValidateProposalMsg lib share state resolver m = Some ''proposal leader invalid'')"
  by (auto simp: ValidateProposalMsg_def Let_def MatchedSigners_single
           split: sum.splits option.splits if_splits)

theorem ValidateProposalMsg_leader_witness:
  "ValidateProposalMsg exampleLib committeeOfFour freshState (roundRobinLeader 0 4)
     (signedBy [1] ProposalMsgType 0 1 [1, 2, 3, 4]) = None \<and>
   Signers (signedBy [1] ProposalMsgType 0 1 [1, 2, 3, 4]) = [roundRobinLeader 0 4 1] \<and>
   length (Signers (signedBy [1, 2] ProposalMsgType 0 1 [1, 2, 3, 4])) \<noteq> 1 \<and>
   ValidateProposalMsg exampleLib committeeOfFour freshState (roundRobinLeader 0 4)
     (signedBy [1, 2] ProposalMsgType 0 1 [1, 2, 3, 4]) = Some ''proposal msg allows 1 signer'' \<and>
   Signers (signedBy [2] ProposalMsgType 0 1 [1, 2, 3, 4]) = [2] \<and>
   2 \<noteq> roundRobinLeader 0 4 1 \<and>
   ValidateProposalMsg exampleLib committeeOfFour freshState (roundRobinLeader 0 4)
     (signedBy [2] ProposalMsgType 0 1 [1, 2, 3, 4]) = Some ''proposal leader invalid''"
proof -
  let ?v = "ValidateProposalMsg exampleLib committeeOfFour freshState (roundRobinLeader 0 4)"
  have ok: "?v (signedBy [1] ProposalMsgType 0 1 [1, 2, 3, 4]) = None"
    by (simp add: ValidateProposalMsg_def exampleLib_def freshState_def signedBy_def
          roundRobinLeader_def MatchedSigners_def Justify_def)
  have two: "length (Signers (signedBy [1, 2] ProposalMsgType 0 1 [1, 2, 3, 4])) \<noteq> 1"
    by (simp add: signedBy_def)
  have other: "Signers (signedBy [2] ProposalMsgType 0 1 [1, 2, 3, 4]) = [2] \<and>
      2 \<noteq> roundRobinLeader 0 4 (Round (Message (signedBy [2] ProposalMsgType 0 1 [1, 2, 3, 4])))"
    by (simp add: signedBy_def roundRobinLeader_def)
  have l1: "roundRobinLeader 0 4 (Round (Message (signedBy [1] ProposalMsgType 0 1 [1, 2, 3, 4]))) =
      roundRobinLeader 0 4 1"
    by (simp add: signedBy_def)
  have l2: "roundRobinLeader 0 4 (Round (Message (signedBy [2] ProposalMsgType 0 1 [1, 2, 3, 4]))) =
      roundRobinLeader 0 4 1"
    by (simp add: signedBy_def)
  from ValidateProposalMsg_leader [of exampleLib committeeOfFour freshState "roundRobinLeader 0 4"
      "signedBy [1] ProposalMsgType 0 1 [1, 2, 3, 4]" 0] ok l1
  have a: "Signers (signedBy [1] ProposalMsgType 0 1 [1, 2, 3, 4]) = [roundRobinLeader 0 4 1]"
    by simp
  from ValidateProposalMsg_leader [of exampleLib committeeOfFour freshState "roundRobinLeader 0 4"
      "signedBy [1, 2] ProposalMsgType 0 1 [1, 2, 3, 4]" 0] two
  have b: "?v (signedBy [1, 2] ProposalMsgType 0 1 [1, 2, 3, 4]) = Some ''proposal msg allows 1 signer''"
    by blast
  from ValidateProposalMsg_leader [of exampleLib committeeOfFour freshState "roundRobinLeader 0 4"
      "signedBy [2] ProposalMsgType 0 1 [1, 2, 3, 4]" 2] other
  have c: "?v (signedBy [2] ProposalMsgType 0 1 [1, 2, 3, 4]) = Some ''proposal leader invalid''"
    by blast
  from ok a two b other c l2 show ?thesis by simp
qed

text \<open>C10. A proposal that has passed the leader check, whose payload decodes and is
  valid and which \<open>Justify\<close> accepts, is accepted by \<open>ValidateProposalMsg\<close> in exactly two
  cases: no proposal is accepted for the current round and the message's round is the
  current round, or a proposal is accepted and the message's round is greater than the
  current round. In every other case the error is
  \<open>proposal is not valid with current state\<close>.\<close>

theorem ValidateProposalMsg_state:
  assumes "Signers m = [resolver (Round (Message m))]"
    and "GetProposalData lib (Message m) = Inr pd"
    and "ProposalDataValidate lib pd = None"
    and "Justify lib share state (Round (Message m)) (RoundChangeJustification pd)
           (PrepareJustification pd) (ProposalValue pd) = None"
  shows "ValidateProposalMsg lib share state resolver m =
           (if (ProposalAcceptedForCurrentRound state = None \<and>
                  Round (Message m) = StateRound state) \<or>
               (ProposalAcceptedForCurrentRound state \<noteq> None \<and>
                  StateRound state < Round (Message m))
            then None else Some ''proposal is not valid with current state'')"
  using assms
  by (simp add: ValidateProposalMsg_def Let_def MatchedSigners_single)

lemma Justify_unprepared_example:
  "Justify justifyingLib committeeOfFour acceptedState 2 (unpreparedRoundChanges 2) [] v = None"
  by (simp add: Justify_def acceptedState_def freshState_def justifyingLib_def exampleLib_def unpreparedRoundChanges_def
        signedBy_def roundChangePipeline_def MsgTypeCheck_def ValidateSequenceNumber_def
        ValidateRound_def HasQuorumMsgs_def HasQuorum_def uniqueSigners_def committeeOfFour_def)

theorem ValidateProposalMsg_state_witness:
  "ValidateProposalMsg justifyingLib committeeOfFour acceptedState (roundRobinLeader 0 4)
     (signedBy [2] ProposalMsgType 0 2 [1, 2, 3, 4]) = None \<and>
   ValidateProposalMsg exampleLib committeeOfFour freshState (roundRobinLeader 0 4)
     (signedBy [1] ProposalMsgType 0 1 [1, 2, 3, 4]) = None \<and>
   ValidateProposalMsg exampleLib committeeOfFour acceptedState (roundRobinLeader 0 4)
     (signedBy [1] ProposalMsgType 0 1 [1, 2, 3, 4]) =
     Some ''proposal is not valid with current state''"
proof -
  let ?p1 = "signedBy [1] ProposalMsgType 0 1 [1, 2, 3, 4]"
  let ?p2 = "signedBy [2] ProposalMsgType 0 2 [1, 2, 3, 4]"
  let ?pd1 = "\<lparr>ProposalValue = [1, 2, 3, 4], RoundChangeJustification = [],
               PrepareJustification = []\<rparr>"
  let ?pd2 = "\<lparr>ProposalValue = [1, 2, 3, 4], RoundChangeJustification = unpreparedRoundChanges 2,
               PrepareJustification = []\<rparr>"
  have s1: "Signers ?p1 = [roundRobinLeader 0 4 (Round (Message ?p1))]"
    by (simp add: signedBy_def roundRobinLeader_def)
  have s2: "Signers ?p2 = [roundRobinLeader 0 4 (Round (Message ?p2))]"
    by (simp add: signedBy_def roundRobinLeader_def)
  have d1: "GetProposalData exampleLib (Message ?p1) = Inr ?pd1"
    by (simp add: exampleLib_def signedBy_def)
  have d2: "GetProposalData justifyingLib (Message ?p2) = Inr ?pd2"
    by (simp add: justifyingLib_def signedBy_def)
  have v1: "ProposalDataValidate exampleLib ?pd1 = None"
    by (simp add: exampleLib_def)
  have v2: "ProposalDataValidate justifyingLib ?pd2 = None"
    by (simp add: justifyingLib_def exampleLib_def)
  have j1: "Justify exampleLib committeeOfFour st (Round (Message ?p1))
      (RoundChangeJustification ?pd1) (PrepareJustification ?pd1) (ProposalValue ?pd1) = None" for st
    by (simp add: Justify_def signedBy_def)
  have j2: "Justify justifyingLib committeeOfFour acceptedState (Round (Message ?p2))
      (RoundChangeJustification ?pd2) (PrepareJustification ?pd2) (ProposalValue ?pd2) = None"
    using Justify_unprepared_example [of "[1, 2, 3, 4]"]
    by (simp add: signedBy_def)
  have a: "ValidateProposalMsg justifyingLib committeeOfFour acceptedState (roundRobinLeader 0 4) ?p2 = None"
    using ValidateProposalMsg_state [of ?p2 "roundRobinLeader 0 4" justifyingLib ?pd2
        committeeOfFour acceptedState] s2 d2 v2 j2
    by (simp add: acceptedState_def freshState_def signedBy_def)
  have b: "ValidateProposalMsg exampleLib committeeOfFour freshState (roundRobinLeader 0 4) ?p1 = None"
    using ValidateProposalMsg_state [of ?p1 "roundRobinLeader 0 4" exampleLib ?pd1
        committeeOfFour freshState] s1 d1 v1 j1 [of freshState]
    by (simp add: freshState_def signedBy_def)
  have c: "ValidateProposalMsg exampleLib committeeOfFour acceptedState (roundRobinLeader 0 4) ?p1 =
      Some ''proposal is not valid with current state''"
    using ValidateProposalMsg_state [of ?p1 "roundRobinLeader 0 4" exampleLib ?pd1
        committeeOfFour acceptedState] s1 d1 v1 j1 [of acceptedState]
    by (simp add: acceptedState_def freshState_def signedBy_def)
  from a b c show ?thesis by simp
qed

subsection \<open>C5: receiving a proposal\<close>

text \<open>C5. For a proposal whose payload decodes (as it does after the validation
  pipeline) and whose prepare payload encodes, \<open>UponProposalMsg\<close> stores the message as
  \<open>ProposalAcceptedForCurrentRound\<close>; when the message's round is greater than the
  instance's round it sets the round to the message's round and resets the round timer,
  and otherwise leaves both alone; it then moves the stage to \<open>Proposal\<close> and hands to
  \<open>SignAndBroadcast\<close> a PREPARE message of the instance's height, its (new) round and its
  identifier that carries the proposal's value; it returns what \<open>SignAndBroadcast\<close>
  returns.\<close>

theorem UponProposalMsg_accepts:
  assumes "GetProposalData lib (Message m) = Inr pd"
    and "EncodePrepareData lib (ProposalValue pd) = Inr enc"
  shows "UponProposalMsg lib i m =
     (let bump = StateRound (State i) < Round (Message m);
          newRound = (if bump then Round (Message m) else StateRound (State i));
          prepare = \<lparr>MsgType = PrepareMsgType, Height = StateHeight (State i), Round = newRound,
                      Identifier = StateIdentifier (State i), Data = enc\<rparr>
      in (SignAndBroadcast lib prepare,
          i\<lparr>State := (State i)\<lparr>ProposalAcceptedForCurrentRound := Some m,
                                  StateRound := newRound, Stage := RoundStateProposal\<rparr>,
            effects := effects i @ (if bump then [TimerReset] else []) @
                       [StageSignal RoundStateProposal, Broadcast prepare]\<rparr>))"
  using assms
  by (simp add: UponProposalMsg_def GeneratePrepareMessage_def ProcessStageChange_def
        bumpToRound_def ResetRoundTimer_def Let_def)

theorem UponProposalMsg_accepts_witness:
  "GetProposalData exampleLib (Message (signedBy [2] ProposalMsgType 0 2 [1, 2, 3, 4])) =
     Inr \<lparr>ProposalValue = [1, 2, 3, 4], RoundChangeJustification = [], PrepareJustification = []\<rparr> \<and>
   EncodePrepareData exampleLib [1, 2, 3, 4] = Inr [1, 2, 3, 4] \<and>
   UponProposalMsg exampleLib freshInstance (signedBy [2] ProposalMsgType 0 2 [1, 2, 3, 4]) =
     (None,
      freshInstance\<lparr>State := freshState\<lparr>ProposalAcceptedForCurrentRound :=
                                  Some (signedBy [2] ProposalMsgType 0 2 [1, 2, 3, 4]),
                                StateRound := 2, Stage := RoundStateProposal\<rparr>,
        effects := [TimerReset, StageSignal RoundStateProposal,
                    Broadcast \<lparr>MsgType = PrepareMsgType, Height = 0, Round = 2,
                               Identifier = [7], Data = [1, 2, 3, 4]\<rparr>]\<rparr>)"
proof -
  let ?p = "signedBy [2] ProposalMsgType 0 2 [1, 2, 3, 4]"
  let ?pd = "\<lparr>ProposalValue = [1, 2, 3, 4], RoundChangeJustification = [],
              PrepareJustification = []\<rparr>"
  have d: "GetProposalData exampleLib (Message ?p) = Inr ?pd"
    by (simp add: exampleLib_def signedBy_def)
  have e: "EncodePrepareData exampleLib (ProposalValue ?pd) = Inr [1, 2, 3, 4]"
    by (simp add: exampleLib_def)
  have s: "SignAndBroadcast exampleLib x = None" for x
    by (simp add: exampleLib_def)
  from UponProposalMsg_accepts [of exampleLib ?p ?pd "[1, 2, 3, 4]" freshInstance, OF d e] d e
  show ?thesis
    by (simp add: s freshInstance_def freshState_def signedBy_def Let_def)
qed

subsection \<open>C9: the round and the height under their updates\<close>



text \<open>The model of \<open>canStartNewInstance\<close> on the rows of its test: a ready controller
  over a storage decided up to 10 accepts 11 and refuses 12 and 10, over an empty
  storage it accepts 0; a controller that is not ready refuses with its state's name;
  the error of a running instance is passed on.\<close>

lemma canStartNewInstance_test:
  "canStartNewInstance \<lparr>CtrlState = Ready, height = None\<rparr>
     (Some (signedBy [1, 2, 3] CommitMsgType 10 1 [1, 2, 3, 4])) None 11 = None \<and>
   canStartNewInstance \<lparr>CtrlState = Ready, height = None\<rparr> None None 0 = None \<and>
   canStartNewInstance \<lparr>CtrlState = NotStarted, height = None\<rparr> None None 0 =
     Some ''controller hasn't initialized yet. current state - notStarted'' \<and>
   canStartNewInstance \<lparr>CtrlState = InitiatedHandlers, height = None\<rparr> None None 0 =
     Some ''controller hasn't initialized yet. current state - initiatedHandlers'' \<and>
   canStartNewInstance \<lparr>CtrlState = Ready, height = None\<rparr>
     (Some (signedBy [1, 2, 3] CommitMsgType 10 1 [1, 2, 3, 4])) None 12 =
     Some ''instance seq invalid'' \<and>
   canStartNewInstance \<lparr>CtrlState = Ready, height = None\<rparr>
     (Some (signedBy [1, 2, 3] CommitMsgType 10 1 [1, 2, 3, 4])) None 10 =
     Some ''instance seq invalid'' \<and>
   canStartNewInstance \<lparr>CtrlState = Ready, height = None\<rparr>
     (Some (signedBy [1, 2, 3] CommitMsgType 10 1 [1, 2, 3, 4]))
     (Some ''current instance (10) is still running'') 11 =
     Some ''current instance (10) is still running''"
  by (simp add: canStartNewInstance_def initialized_def stateStringMap_def signedBy_def)




















subsection \<open>C3: the longest list of unique signers\<close>

lemma disjointSigners_snoc:
  "disjointSigners (ms @ [m]) \<longleftrightarrow>
     disjointSigners ms \<and> (\<forall>m' \<in> set ms. set (Signers m') \<inter> set (Signers m) = {})"
  by (induction ms) (auto simp: list_all_iff)

lemma CommonSigners_concat:
  "CommonSigners m (concat (map Signers ms)) \<longleftrightarrow>
     (\<exists>m' \<in> set ms. set (Signers m') \<inter> set (Signers m) \<noteq> {})"
  by (auto simp: CommonSigners_def list_ex_iff)

lemma longestInner_props:
  assumes "longestInner v rest (cs, cm) = (cs', cm')"
    and "cs = concat (map Signers cm)" and "disjointSigners cm"
  shows "cs' = concat (map Signers cm') \<and> disjointSigners cm' \<and> length cs \<le> length cs' \<and>
         (\<exists>extra. cm' = cm @ extra \<and> subseq extra (filter (\<lambda>m. Data (Message m) = v) rest))"
  using assms
proof (induction rest arbitrary: cs cm)
  case Nil
  then show ?case by auto
next
  case (Cons m2 rest)
  show ?case
  proof (cases "Data (Message m2) = v \<and> \<not> CommonSigners m2 cs")
    case True
    with Cons.prems(1) have run: "longestInner v rest (cs @ Signers m2, cm @ [m2]) = (cs', cm')"
      by simp
    have c1: "cs @ Signers m2 = concat (map Signers (cm @ [m2]))"
      using Cons.prems(2) by simp
    have c2: "disjointSigners (cm @ [m2])"
      using True Cons.prems(2,3) by (auto simp: disjointSigners_snoc CommonSigners_concat)
    from Cons.IH [OF run c1 c2] obtain extra where
      ih: "cs' = concat (map Signers cm')" "disjointSigners cm'"
          "length (cs @ Signers m2) \<le> length cs'"
          "cm' = (cm @ [m2]) @ extra"
          "subseq extra (filter (\<lambda>m. Data (Message m) = v) rest)"
      by blast
    have "cm' = cm @ (m2 # extra)" using ih(4) by simp
    moreover have "subseq (m2 # extra) (filter (\<lambda>m. Data (Message m) = v) (m2 # rest))"
      using True ih(5) by simp
    ultimately show ?thesis using ih(1,2,3) by (metis add_leD1 length_append)
  next
    case False
    with Cons.prems(1) have run: "longestInner v rest (cs, cm) = (cs', cm')"
      by (auto split: if_splits)
    from Cons.IH [OF run Cons.prems(2,3)] obtain extra where
      ih: "cs' = concat (map Signers cm')" "disjointSigners cm'" "length cs \<le> length cs'"
          "cm' = cm @ extra" "subseq extra (filter (\<lambda>m. Data (Message m) = v) rest)"
      by blast
    have "subseq extra (filter (\<lambda>m. Data (Message m) = v) (m2 # rest))"
      using ih(5) by (auto intro: list_emb_Cons)
    with ih show ?thesis by blast
  qed
qed


lemma longestOuter_props:
  assumes "longestOuter v xs (sr, mr) = (sr', mr')"
  shows "length sr \<le> length sr' \<and>
         (\<forall>m \<in> set xs. Data (Message m) = v \<longrightarrow> length (Signers m) \<le> length sr') \<and>
         ((sr', mr') = (sr, mr) \<or>
          (sr' = concat (map Signers mr') \<and> disjointSigners mr' \<and>
           subseq mr' (filter (\<lambda>m. Data (Message m) = v) xs)))"
  using assms
proof (induction xs arbitrary: sr mr)
  case Nil
  then show ?case by auto
next
  case (Cons m rest)
  show ?case
  proof (cases "Data (Message m) = v")
    case False
    with Cons.prems have run: "longestOuter v rest (sr, mr) = (sr', mr')" by simp
    from Cons.IH [OF run] False show ?thesis by (auto intro: list_emb_Cons)
  next
    case True
    obtain cs cm where cur: "longestInner v rest (Signers m, [m]) = (cs, cm)"
      by (cases "longestInner v rest (Signers m, [m])")
    from longestInner_props [OF cur] obtain extra where
      inner: "cs = concat (map Signers cm)" "disjointSigners cm"
             "length (Signers m) \<le> length cs" "cm = [m] @ extra"
             "subseq extra (filter (\<lambda>m. Data (Message m) = v) rest)"
      by auto
    have sub: "subseq cm (filter (\<lambda>m. Data (Message m) = v) (m # rest))"
      using True inner(4,5) by simp
    show ?thesis
    proof (cases "length sr < length cs")
      case better: True
      with True cur Cons.prems have run: "longestOuter v rest (cs, cm) = (sr', mr')"
        by simp
      from Cons.IH [OF run] have
        ih: "length cs \<le> length sr'"
            "\<forall>m \<in> set rest. Data (Message m) = v \<longrightarrow> length (Signers m) \<le> length sr'"
            "(sr', mr') = (cs, cm) \<or>
             (sr' = concat (map Signers mr') \<and> disjointSigners mr' \<and>
              subseq mr' (filter (\<lambda>m. Data (Message m) = v) rest))"
        by auto
      have "sr' = concat (map Signers mr') \<and> disjointSigners mr' \<and>
            subseq mr' (filter (\<lambda>m. Data (Message m) = v) (m # rest))"
        using ih(3) inner(1,2) sub True by (auto intro: list_emb_Cons)
      moreover have "length sr \<le> length sr'" using better ih(1) by simp
      moreover have "length (Signers m) \<le> length sr'" using inner(3) ih(1) by simp
      ultimately show ?thesis using ih(2) by auto
    next
      case worse: False
      with True cur Cons.prems have run: "longestOuter v rest (sr, mr) = (sr', mr')"
        by simp
      from Cons.IH [OF run] have
        ih: "length sr \<le> length sr'"
            "\<forall>m \<in> set rest. Data (Message m) = v \<longrightarrow> length (Signers m) \<le> length sr'"
            "(sr', mr') = (sr, mr) \<or>
             (sr' = concat (map Signers mr') \<and> disjointSigners mr' \<and>
              subseq mr' (filter (\<lambda>m. Data (Message m) = v) rest))"
        by auto
      have "length (Signers m) \<le> length sr'" using inner(3) worse ih(1) by simp
      moreover have "(sr', mr') = (sr, mr) \<or>
             (sr' = concat (map Signers mr') \<and> disjointSigners mr' \<and>
              subseq mr' (filter (\<lambda>m. Data (Message m) = v) (m # rest)))"
        using ih(3) True by (auto intro: list_emb_Cons)
      ultimately show ?thesis using ih(1,2) by auto
    qed
  qed
qed

lemma subseq_set_subset: "subseq xs ys \<Longrightarrow> set xs \<subseteq> set ys"
proof
  fix x assume "subseq xs ys" and "x \<in> set xs"
  then obtain y where "y \<in> set ys" and "x = y" by (rule list_emb_set)
  then show "x \<in> set ys" by simp
qed

lemma distinct_disjointSigners:
  "disjointSigners ms \<Longrightarrow> \<forall>m \<in> set ms. distinct (Signers m) \<Longrightarrow>
   distinct (concat (map Signers ms))"
  by (induction ms) (auto simp: list_all_iff)

lemma longestOuter_two:
  assumes "Data (Message a) = v" and "Data (Message b) = v"
  shows "fst (longestOuter v [a, b] ([], [])) =
     (if set (Signers a) \<inter> set (Signers b) = {} then Signers a @ Signers b
      else if length (Signers a) < length (Signers b) then Signers b else Signers a)"
proof (cases "set (Signers a) \<inter> set (Signers b) = {}")
  case True
  then have "\<not> CommonSigners b (Signers a)"
    by (auto simp: CommonSigners_def list_ex_iff)
  with assms True show ?thesis by (auto simp: Let_def)
next
  case False
  then have c: "CommonSigners b (Signers a)"
    by (auto simp: CommonSigners_def list_ex_iff)
  from False have "Signers a \<noteq> []" by auto
  with assms c False show ?thesis by (auto simp: Let_def)
qed

text \<open>The inner loop builds the greedy collection of its start, and the outer loop
  keeps the first of the greedy collections with the most signers.\<close>

lemma longestInner_greedy:
  "cs = concat (map Signers cm) \<Longrightarrow>
   longestInner v rest (cs, cm) =
     (concat (map Signers (greedyCollection v cm rest)), greedyCollection v cm rest)"
proof (induction rest arbitrary: cs cm)
  case Nil
  then show ?case by simp
next
  case (Cons m2 rest)
  have common: "CommonSigners m2 cs \<longleftrightarrow>
      \<not> list_all (\<lambda>t. set (Signers t) \<inter> set (Signers m2) = {}) cm"
    using Cons.prems by (auto simp: CommonSigners_concat list_all_iff)
  show ?case
  proof (cases "Data (Message m2) = v \<and> \<not> CommonSigners m2 cs")
    case True
    have "cs @ Signers m2 = concat (map Signers (cm @ [m2]))"
      using Cons.prems by simp
    from Cons.IH [OF this] True common show ?thesis by simp
  next
    case False
    from Cons.IH [OF Cons.prems] False common show ?thesis by auto
  qed
qed

lemma longestOuter_best:
  assumes "longestOuter v xs (sr, mr) = (sr', mr')"
    and "sr = concat (map Signers mr)"
  shows "((sr', mr') = (sr, mr) \<and>
            (\<forall>c \<in> set (greedyCollections v xs). signerCount c \<le> signerCount mr)) \<or>
         (\<exists>before after. greedyCollections v xs = before @ mr' # after \<and>
            sr' = concat (map Signers mr') \<and>
            signerCount mr < signerCount mr' \<and>
            (\<forall>c \<in> set before. signerCount c < signerCount mr') \<and>
            (\<forall>c \<in> set after. signerCount c \<le> signerCount mr'))"
  using assms
proof (induction xs arbitrary: sr mr)
  case Nil
  then show ?case by auto
next
  case (Cons m rest)
  show ?case
  proof (cases "Data (Message m) = v")
    case False
    with Cons.prems have "longestOuter v rest (sr, mr) = (sr', mr')" by simp
    from Cons.IH [OF this Cons.prems(2)] False show ?thesis by simp
  next
    case True
    let ?g = "greedyCollection v [m] rest"
    have inner: "longestInner v rest (Signers m, [m]) = (concat (map Signers ?g), ?g)"
      by (rule longestInner_greedy) simp
    have cands: "greedyCollections v (m # rest) = ?g # greedyCollections v rest"
      using True by simp
    show ?thesis
    proof (cases "signerCount mr < signerCount ?g")
      case better: True
      have run: "longestOuter v rest (concat (map Signers ?g), ?g) = (sr', mr')"
        using Cons.prems True inner better by (simp add: signerCount_def)
      from Cons.IH [OF run refl]
      consider (same) "(sr', mr') = (concat (map Signers ?g), ?g)"
          "\<forall>c \<in> set (greedyCollections v rest). signerCount c \<le> signerCount ?g"
        | (later) before after where "greedyCollections v rest = before @ mr' # after"
          "sr' = concat (map Signers mr')" "signerCount ?g < signerCount mr'"
          "\<forall>c \<in> set before. signerCount c < signerCount mr'"
          "\<forall>c \<in> set after. signerCount c \<le> signerCount mr'"
        by blast
      then show ?thesis
      proof cases
        case same
        then have "greedyCollections v (m # rest) = [] @ mr' # greedyCollections v rest \<and>
            sr' = concat (map Signers mr') \<and> signerCount mr < signerCount mr' \<and>
            (\<forall>c \<in> set []. signerCount c < signerCount mr') \<and>
            (\<forall>c \<in> set (greedyCollections v rest). signerCount c \<le> signerCount mr')"
          using cands better by simp
        then show ?thesis by blast
      next
        case later
        then have "greedyCollections v (m # rest) = (?g # before) @ mr' # after \<and>
            sr' = concat (map Signers mr') \<and> signerCount mr < signerCount mr' \<and>
            (\<forall>c \<in> set (?g # before). signerCount c < signerCount mr') \<and>
            (\<forall>c \<in> set after. signerCount c \<le> signerCount mr')"
          using cands better by simp
        then show ?thesis by blast
      qed
    next
      case worse: False
      have run: "longestOuter v rest (sr, mr) = (sr', mr')"
        using Cons.prems True inner worse by (simp add: signerCount_def)
      from Cons.IH [OF run Cons.prems(2)]
      consider (same) "(sr', mr') = (sr, mr)"
          "\<forall>c \<in> set (greedyCollections v rest). signerCount c \<le> signerCount mr"
        | (later) before after where "greedyCollections v rest = before @ mr' # after"
          "sr' = concat (map Signers mr')" "signerCount mr < signerCount mr'"
          "\<forall>c \<in> set before. signerCount c < signerCount mr'"
          "\<forall>c \<in> set after. signerCount c \<le> signerCount mr'"
        by blast
      then show ?thesis
      proof cases
        case same
        then show ?thesis using cands worse by auto
      next
        case later
        then have "greedyCollections v (m # rest) = (?g # before) @ mr' # after \<and>
            sr' = concat (map Signers mr') \<and> signerCount mr < signerCount mr' \<and>
            (\<forall>c \<in> set (?g # before). signerCount c < signerCount mr') \<and>
            (\<forall>c \<in> set after. signerCount c \<le> signerCount mr')"
          using cands worse by simp
        then show ?thesis by blast
      qed
    qed
  qed
qed


text \<open>C3 (amended). \<open>longestUniqueSignersForRoundAndValue\<close> returns \<open>(signers, messages)\<close>
  where \<open>messages\<close> is a sub-collection, in insertion order, of the round's messages
  whose data is the value, with pairwise disjoint signer sets, and \<open>signers\<close> is the
  concatenation of their signer lists, free of duplicates when no stored message names
  a signer twice. The collection is the best of the greedy collections: there is one
  per stored message over the value, started from it and taking each later message over
  the value that shares no signer with those taken so far; the result is the first of
  them with the most signers (every one before it has fewer signers, none after it has
  more), and it is empty when none has a signer. So it has at least as many signers as
  any single stored message over the value; it need not be a largest disjoint
  collection. For two stored messages over the value the signers are both signer lists
  when they are disjoint, and the longer list alone (the first on a tie) when they
  overlap.\<close>

theorem longestUniqueSigners_greedy:
  assumes "longestUniqueSignersForRoundAndValue container round v = (signers, msgs)"
    and "stored = (case container round of None \<Rightarrow> [] | Some ms \<Rightarrow> ms)"
  shows "subseq msgs (filter (\<lambda>m. Data (Message m) = v) stored) \<and>
         disjointSigners msgs \<and>
         signers = concat (map Signers msgs) \<and>
         ((\<forall>m \<in> set stored. distinct (Signers m)) \<longrightarrow> distinct signers) \<and>
         (\<forall>m \<in> set stored. Data (Message m) = v \<longrightarrow> length (Signers m) \<le> length signers) \<and>
         (\<forall>a b. stored = [a, b] \<and> Data (Message a) = v \<and> Data (Message b) = v \<longrightarrow>
            signers = (if set (Signers a) \<inter> set (Signers b) = {} then Signers a @ Signers b
                       else if length (Signers a) < length (Signers b) then Signers b
                       else Signers a)) \<and>
         ((\<forall>c \<in> set (greedyCollections v stored). signerCount c = 0) \<longrightarrow>
            signers = [] \<and> msgs = []) \<and>
         ((\<exists>c \<in> set (greedyCollections v stored). 0 < signerCount c) \<longrightarrow>
            (\<exists>before after. greedyCollections v stored = before @ msgs # after \<and>
               (\<forall>c \<in> set before. signerCount c < signerCount msgs) \<and>
               (\<forall>c \<in> set after. signerCount c \<le> signerCount msgs)))"
proof -
  have run: "longestOuter v stored ([], []) = (signers, msgs)"
    using assms
    by (auto simp: longestUniqueSignersForRoundAndValue_def ReadOnlyMessagesByRound_def
          split: option.splits)
  from longestOuter_props [OF run] have
    len: "\<forall>m \<in> set stored. Data (Message m) = v \<longrightarrow> length (Signers m) \<le> length signers" and
    alt: "(signers, msgs) = ([], []) \<or>
          (signers = concat (map Signers msgs) \<and> disjointSigners msgs \<and>
           subseq msgs (filter (\<lambda>m. Data (Message m) = v) stored))"
    by auto
  from alt have main: "signers = concat (map Signers msgs) \<and> disjointSigners msgs \<and>
      subseq msgs (filter (\<lambda>m. Data (Message m) = v) stored)"
    by auto
  have dist: "distinct signers" if d: "\<forall>m \<in> set stored. distinct (Signers m)"
  proof -
    from main have "subseq msgs (filter (\<lambda>m. Data (Message m) = v) stored)" by blast
    then have "set msgs \<subseteq> set (filter (\<lambda>m. Data (Message m) = v) stored)"
      by (rule subseq_set_subset)
    then have "set msgs \<subseteq> set stored" by auto
    with d have "\<forall>m \<in> set msgs. distinct (Signers m)" by auto
    with main show ?thesis by (simp add: distinct_disjointSigners)
  qed
  have two: "signers = (if set (Signers a) \<inter> set (Signers b) = {} then Signers a @ Signers b
                        else if length (Signers a) < length (Signers b) then Signers b
                        else Signers a)"
    if "stored = [a, b]" "Data (Message a) = v" "Data (Message b) = v" for a b
    using longestOuter_two [OF that(2,3)] run that(1) by simp
  have best: "((signers, msgs) = ([], []) \<and>
                 (\<forall>c \<in> set (greedyCollections v stored). signerCount c \<le> signerCount [])) \<or>
              (\<exists>before after. greedyCollections v stored = before @ msgs # after \<and>
                 signers = concat (map Signers msgs) \<and>
                 signerCount [] < signerCount msgs \<and>
                 (\<forall>c \<in> set before. signerCount c < signerCount msgs) \<and>
                 (\<forall>c \<in> set after. signerCount c \<le> signerCount msgs))"
    by (rule longestOuter_best [OF run]) simp
  have zero: "signerCount [] = 0" by (simp add: signerCount_def)
  have none: "signers = [] \<and> msgs = []"
    if z: "\<forall>c \<in> set (greedyCollections v stored). signerCount c = 0"
  proof -
    from best show ?thesis
    proof
      assume "(signers, msgs) = ([], []) \<and>
          (\<forall>c \<in> set (greedyCollections v stored). signerCount c \<le> signerCount [])"
      then show ?thesis by simp
    next
      assume "\<exists>before after. greedyCollections v stored = before @ msgs # after \<and>
          signers = concat (map Signers msgs) \<and> signerCount [] < signerCount msgs \<and>
          (\<forall>c \<in> set before. signerCount c < signerCount msgs) \<and>
          (\<forall>c \<in> set after. signerCount c \<le> signerCount msgs)"
      then obtain before after where
        "greedyCollections v stored = before @ msgs # after" "signerCount [] < signerCount msgs"
        by blast
      with z zero have False by auto
      then show ?thesis ..
    qed
  qed
  have some: "\<exists>before after. greedyCollections v stored = before @ msgs # after \<and>
      (\<forall>c \<in> set before. signerCount c < signerCount msgs) \<and>
      (\<forall>c \<in> set after. signerCount c \<le> signerCount msgs)"
    if p: "\<exists>c \<in> set (greedyCollections v stored). 0 < signerCount c"
  proof -
    from best show ?thesis
    proof
      assume "(signers, msgs) = ([], []) \<and>
          (\<forall>c \<in> set (greedyCollections v stored). signerCount c \<le> signerCount [])"
      with p zero have False by auto
      then show ?thesis ..
    next
      assume "\<exists>before after. greedyCollections v stored = before @ msgs # after \<and>
          signers = concat (map Signers msgs) \<and> signerCount [] < signerCount msgs \<and>
          (\<forall>c \<in> set before. signerCount c < signerCount msgs) \<and>
          (\<forall>c \<in> set after. signerCount c \<le> signerCount msgs)"
      then show ?thesis by blast
    qed
  qed
  from main len dist two none some show ?thesis by blast
qed

theorem longestUniqueSigners_greedy_witness:
  "longestUniqueSignersForRoundAndValue (containerOf (commitsOf [[1, 2], [2], [3]])) 1
       [1, 2, 3, 4] =
     ([1, 2, 3], commitsOf [[1, 2], [3]]) \<and>
   list_all (\<lambda>m. distinct (Signers m)) (commitsOf [[1, 2], [2], [3]]) \<and>
   list_all (\<lambda>m. Data (Message m) = [1, 2, 3, 4]) (commitsOf [[1, 2], [2], [3]]) \<and>
   greedyCollections [1, 2, 3, 4] (commitsOf [[1, 2], [2], [3]]) =
     [commitsOf [[1, 2], [3]], commitsOf [[2], [3]], commitsOf [[3]]] \<and>
   map signerCount (greedyCollections [1, 2, 3, 4] (commitsOf [[1, 2], [2], [3]])) = [3, 2, 1] \<and>
   disjointSigners (commitsOf [[1, 2], [3]]) \<and>
   distinct [1, 2, 3 :: 64 word] \<and>
   subseq (commitsOf [[1, 2], [3]])
     (filter (\<lambda>m. Data (Message m) = [1, 2, 3, 4]) (commitsOf [[1, 2], [2], [3]]))"
proof -
  let ?stored = "commitsOf [[1, 2], [2], [3]]"
  let ?best = "commitsOf [[1, 2], [3]]"
  have run: "longestUniqueSignersForRoundAndValue (containerOf ?stored) 1 [1, 2, 3, 4] =
      ([1, 2, 3], ?best)"
    by (simp add: longestUniqueSignersForRoundAndValue_def ReadOnlyMessagesByRound_def
          containerOf_def commitsOf_def signedBy_def CommonSigners_def Let_def)
  have st: "?stored = (case containerOf ?stored 1 of None \<Rightarrow> [] | Some ms \<Rightarrow> ms)"
    by (simp add: containerOf_def)
  have d: "\<forall>m \<in> set ?stored. distinct (Signers m)"
    by (simp add: commitsOf_def signedBy_def)
  have v: "list_all (\<lambda>m. Data (Message m) = [1, 2, 3, 4]) ?stored"
    by (simp add: commitsOf_def signedBy_def)
  have g: "greedyCollections [1, 2, 3, 4] ?stored =
      [?best, commitsOf [[2], [3]], commitsOf [[3]]]"
    by (simp add: commitsOf_def signedBy_def)
  have n: "map signerCount (greedyCollections [1, 2, 3, 4] ?stored) = [3, 2, 1]"
    by (simp add: commitsOf_def signedBy_def signerCount_def)
  from longestUniqueSigners_greedy [OF run st] d
  have "subseq ?best (filter (\<lambda>m. Data (Message m) = [1, 2, 3, 4]) ?stored) \<and>
        disjointSigners ?best \<and> distinct [1, 2, 3 :: 64 word]"
    by blast
  with run d v g n show ?thesis by (simp add: list_all_iff)
qed

text \<open>The claim as stated fails: over the stored commits signed by \<open>{1}\<close>, \<open>{2}\<close> and
  \<open>{2,3,4}\<close> the function returns the last one alone (three signers), while the first
  and the last are disjoint and have four signers.\<close>

theorem longestUniqueSigners_not_largest:
  "longestUniqueSignersForRoundAndValue (containerOf (commitsOf [[1], [2], [2, 3, 4]])) 1
       [1, 2, 3, 4] =
     ([2, 3, 4], commitsOf [[2, 3, 4]]) \<and>
   \<not> largestDisjointCollection (commitsOf [[1], [2], [2, 3, 4]]) [1, 2, 3, 4]
       (commitsOf [[2, 3, 4]]) \<and>
   disjointSigners (commitsOf [[1], [2, 3, 4]]) \<and>
   signerCount (commitsOf [[1], [2, 3, 4]]) = 4"
  by (simp add: longestUniqueSignersForRoundAndValue_def ReadOnlyMessagesByRound_def
        containerOf_def commitsOf_def signedBy_def CommonSigners_def Let_def
        largestDisjointCollection_def signerCount_def)

subsection \<open>C4: deciding on a quorum of commits\<close>








subsection \<open>C7: the buffer of future messages\<close>

lemma validateFutureMsg_single:
  "validateFutureMsg config msg operators = None \<Longrightarrow> \<exists>s. Signers msg = [s]"
  by (cases "Signers msg")
     (auto simp: validateFutureMsg_def split: option.splits if_splits)

text \<open>C7 (amended). For a valid message with one signer \<open>s\<close>, \<open>UponFutureMsg\<close> first
  drops from the buffer the entries whose height is at most the controller's height.
  When \<open>s\<close> still has an entry, that entry is kept as it is, the message is discarded
  with the error \<open>discarded future msg\<close> and no sync is triggered. Otherwise the entry
  \<open>(s, height of the message)\<close> is added, and when the buffer then holds at least
  \<open>PartialQuorum\<close> entries \<open>SyncHighestDecided\<close> is called and its error returned. The
  buffer keeps one entry per signer.\<close>

theorem UponFutureMsg_buffer:
  assumes "validateFutureMsg config msg (Committee (CtrlShare c)) = None"
    and "distinct (map fst (FutureMsgsContainer c))"
    and "live = filter (\<lambda>(signer, h). CtrlHeight c < h) (FutureMsgsContainer c)"
  shows "\<exists>s. Signers msg = [s] \<and>
     (if s \<in> fst ` set live
      then UponFutureMsg config c msg =
             (Some ''discarded future msg'', c\<lparr>FutureMsgsContainer := live\<rparr>)
      else UponFutureMsg config c msg =
             (if HasPartialQuorum (CtrlShare c) (Suc (length live))
              then (SyncHighestDecided config (CtrlIdentifier c),
                    c\<lparr>FutureMsgsContainer := live @ [(s, Height (Message msg))],
                      syncRequests := syncRequests c @ [CtrlIdentifier c]\<rparr>)
              else (None, c\<lparr>FutureMsgsContainer := live @ [(s, Height (Message msg))]\<rparr>))) \<and>
     distinct (map fst (FutureMsgsContainer (snd (UponFutureMsg config c msg))))"
proof -
  from validateFutureMsg_single [OF assms(1)] obtain s where s: "Signers msg = [s]" by blast
  have live: "filter (\<lambda>(signer, height). \<not> height \<le> CtrlHeight c) (FutureMsgsContainer c) = live"
    unfolding assms(3) by (rule filter_cong) (auto simp: not_le)
  have ex: "list_ex (\<lambda>(signer, height). signer = s) live \<longleftrightarrow> s \<in> fst ` set live"
    by (force simp: list_ex_iff)
  have d: "distinct (map fst live)"
    unfolding assms(3) using assms(2) by (simp add: distinct_map_filter)
  show ?thesis
  proof (cases "s \<in> fst ` set live")
    case True
    then have "UponFutureMsg config c msg =
        (Some ''discarded future msg'', c\<lparr>FutureMsgsContainer := live\<rparr>)"
      using assms(1) s live ex
      by (simp add: UponFutureMsg_def addHigherHeightMsg_def Let_def)
    with True s d show ?thesis by simp
  next
    case False
    then have "UponFutureMsg config c msg =
        (if HasPartialQuorum (CtrlShare c) (Suc (length live))
         then (SyncHighestDecided config (CtrlIdentifier c),
               c\<lparr>FutureMsgsContainer := live @ [(s, Height (Message msg))],
                 syncRequests := syncRequests c @ [CtrlIdentifier c]\<rparr>)
         else (None, c\<lparr>FutureMsgsContainer := live @ [(s, Height (Message msg))]\<rparr>))"
      using assms(1) s live ex
      by (simp add: UponFutureMsg_def addHigherHeightMsg_def f1SyncTrigger_def Let_def)
    with False s d show ?thesis by auto
  qed
qed

theorem UponFutureMsg_buffer_witness:
  "validateFutureMsg permissiveConfig (signedBy [2] CommitMsgType 10 1 [1, 2, 3, 4])
     (Committee (CtrlShare (controllerAtFive [(1, 10), (3, 4)]))) = None \<and>
   distinct (map fst (FutureMsgsContainer (controllerAtFive [(1, 10), (3, 4)]))) \<and>
   filter (\<lambda>(signer, h). CtrlHeight (controllerAtFive [(1, 10), (3, 4)]) < h)
     (FutureMsgsContainer (controllerAtFive [(1, 10), (3, 4)])) = [(1, 10)] \<and>
   UponFutureMsg permissiveConfig (controllerAtFive [(1, 10), (3, 4)])
       (signedBy [2] CommitMsgType 10 1 [1, 2, 3, 4]) =
     (None, (controllerAtFive [(1, 10), (2, 10)])\<lparr>syncRequests := [[7]]\<rparr>)"
proof -
  let ?c = "controllerAtFive [(1, 10), (3, 4)]"
  let ?m = "signedBy [2] CommitMsgType 10 1 [1, 2, 3, 4]"
  have v: "validateFutureMsg permissiveConfig ?m (Committee (CtrlShare ?c)) = None"
    by (simp add: validateFutureMsg_def permissiveConfig_def signedBy_def)
  have d: "distinct (map fst (FutureMsgsContainer ?c))"
    by (simp add: controllerAtFive_def)
  have l: "[(1, 10)] = filter (\<lambda>(signer, h). CtrlHeight ?c < h) (FutureMsgsContainer ?c)"
    by (simp add: controllerAtFive_def)
  have s: "Signers ?m = [2]" by (simp add: signedBy_def)
  from UponFutureMsg_buffer [OF v d l] s
  have "UponFutureMsg permissiveConfig ?c ?m =
      (if HasPartialQuorum (CtrlShare ?c) (Suc (length [(1 :: 64 word, 10 :: 64 word)]))
       then (SyncHighestDecided permissiveConfig (CtrlIdentifier ?c),
             ?c\<lparr>FutureMsgsContainer := [(1, 10)] @ [(2, Height (Message ?m))],
               syncRequests := syncRequests ?c @ [CtrlIdentifier ?c]\<rparr>)
       else (None, ?c\<lparr>FutureMsgsContainer := [(1, 10)] @ [(2, Height (Message ?m))]\<rparr>))"
    by auto
  then have "UponFutureMsg permissiveConfig ?c ?m =
      (None, (controllerAtFive [(1, 10), (2, 10)])\<lparr>syncRequests := [[7]]\<rparr>)"
    by (simp add: HasPartialQuorum_def controllerAtFive_def committeeOfFour_def
          permissiveConfig_def signedBy_def)
  with v d l show ?thesis by simp
qed

text \<open>The claim as stated fails: the controller at height 5 holds the entry
  \<open>(1, 7)\<close>; a valid message of height 10 signed by operator 1 does not replace it.
  The message is discarded and the buffer still maps operator 1 to height 7.\<close>

theorem UponFutureMsg_keeps_previous_entry:
  "UponFutureMsg permissiveConfig (controllerAtFive [(1, 7)])
       (signedBy [1] CommitMsgType 10 1 [1, 2, 3, 4]) =
     (Some ''discarded future msg'', controllerAtFive [(1, 7)]) \<and>
   map_of (FutureMsgsContainer (snd (UponFutureMsg permissiveConfig (controllerAtFive [(1, 7)])
       (signedBy [1] CommitMsgType 10 1 [1, 2, 3, 4])))) 1 = Some 7"
  by (simp add: UponFutureMsg_def validateFutureMsg_def addHigherHeightMsg_def
        permissiveConfig_def controllerAtFive_def signedBy_def Let_def)

subsection \<open>C8: the window of the decided-history handler\<close>

lemma sint_small: "unat (x::64 word) < 2 ^ 63 \<Longrightarrow> sint x = int (unat x)"
proof -
  assume a: "unat x < 2 ^ 63"
  have "int (unat x) < int (2 ^ 63)" using a by (rule of_nat_less_iff [THEN iffD2])
  then have lt: "uint x < 2 ^ 63" by simp
  have "- (2 ^ 63) \<le> (0::int)" by simp
  also have "0 \<le> uint x" by simp
  finally have ge: "- (2 ^ 63) \<le> uint x" .
  from ge lt have "signed_take_bit 63 (uint x) = uint x"
    by (simp only: signed_take_bit_int_eq_self_iff)
  then show ?thesis by (simp add: sint_uint)
qed

lemma clampHeights_window:
  assumes "unat maxBatchSize < 2 ^ 63" and "from \<le> to"
    and "unat maxBatchSize < unat to - unat from" and "unat to - unat from < 2 ^ 63"
  shows "clampHeights maxBatchSize [from, to] = Inr [from, from + maxBatchSize]"
proof -
  have d: "unat (to - from) = unat to - unat from" using assms(2) by (rule unat_sub)
  have A: "sint (to - from) = int (unat (to - from))"
    by (rule sint_small) (unfold d, rule assms(4))
  have B: "sint maxBatchSize = int (unat maxBatchSize)"
    using assms(1) by (rule sint_small)
  have "unat maxBatchSize < unat (to - from)" unfolding d by (rule assms(3))
  then have C: "int (unat maxBatchSize) < int (unat (to - from))"
    by (rule of_nat_less_iff [THEN iffD2])
  have "sint maxBatchSize < sint (to - from)" unfolding A B by (rule C)
  then show ?thesis by (simp add: clampHeights_def Let_def)
qed

text \<open>The guard reads the difference as a signed number: a range of \<open>2^63\<close> heights
  or more is not clamped.\<close>

lemma clampHeights_wide_range:
  "clampHeights 25 [0, 9223372036854775808] = Inr [0, 9223372036854775808]"
  by (simp add: clampHeights_def Let_def)

lemma strictly_ascending_distinct: "sorted_wrt (<) (ws :: 64 word list) \<Longrightarrow> distinct ws"
  by (induction ws) auto

lemma window_length:
  assumes "sorted_wrt (<) (ws :: 64 word list)"
    and "\<forall>w \<in> set ws. from \<le> w \<and> w \<le> from + n"
    and "unat from + unat n < 2 ^ 64"
  shows "length ws \<le> unat n + 1"
proof -
  have "unat from + unat n < 2 ^ LENGTH(64)" using assms(3) by simp
  then have sum: "unat (from + n) = unat from + unat n"
    by (rule unat_add_lem [THEN iffD1])
  have "unat ` set ws \<subseteq> {unat from .. unat from + unat n}"
  proof
    fix k assume "k \<in> unat ` set ws"
    then obtain w where w: "w \<in> set ws" "k = unat w" by blast
    with assms(2) have "from \<le> w" "w \<le> from + n" by auto
    then have "unat from \<le> unat w" "unat w \<le> unat (from + n)"
      by (simp_all add: word_le_nat_alt)
    with w sum show "k \<in> {unat from .. unat from + unat n}" by simp
  qed
  then have "card (unat ` set ws) \<le> card {unat from .. unat from + unat n}"
    by (intro card_mono) auto
  moreover have "card (unat ` set ws) = card (set ws)"
    by (rule card_image) (auto simp: inj_on_def word_unat_eq_iff)
  moreover have "card (set ws) = length ws"
    using strictly_ascending_distinct [OF assms(1)] by (rule distinct_card)
  ultimately show ?thesis by simp
qed

lemma UpdateResults_found:
  assumes "ds \<noteq> []" and "Params sm = Some params"
  shows "UpdateResults None (map Some ds) sm =
     Inr (sm\<lparr>SyncData := map Some ds,
             Params := Some (params\<lparr>ParamsHeight :=
               (if 1 < length ds then [Height (Message (hd ds)), Height (Message (last ds))]
                else [Height (Message (hd ds))])\<rparr>),
             Status := StatusSuccess\<rparr>)"
proof (cases ds)
  case Nil
  with assms(1) show ?thesis by simp
next
  case (Cons d rest)
  then have "last (map Some ds) = Some (last ds)" by (simp add: last_map)
  with Cons assms(2) show ?thesis
    by (cases rest) (simp_all add: UpdateResults_def Let_def)
qed

text \<open>C8 (amended). For a decided-history request for \<open>[from, to]\<close> whose span
  \<open>to - from\<close> exceeds \<open>maxBatchSize\<close> (a non-negative \<open>int\<close>) and is below \<open>2^63\<close>,
  \<open>HistoryHandler\<close> clamps the upper bound to \<open>from + maxBatchSize\<close> before it
  fetches. When the store returns, without error, decided messages of strictly ascending
  heights within that window, there are at most \<open>maxBatchSize + 1\<close> of them; when there
  is none the response has the status \<open>NotFound\<close> and the clamped bounds as
  \<open>params.height\<close>; otherwise the status is \<open>Success\<close>, the data are those messages
  in the store's order, and \<open>params.height\<close> holds the height of the first message
  and, when there are several, of the last.\<close>

theorem HistoryHandler_clamps:
  assumes "Protocol sm = DecidedHistoryType" and "Params sm = Some params"
    and "ParamsHeight params = [from, to]"
    and "unat maxBatchSize < 2 ^ 63" and "from \<le> to"
    and "unat maxBatchSize < unat to - unat from" and "unat to - unat from < 2 ^ 63"
    and "getInstancesInRange from (from + maxBatchSize) = (instances, None)"
    and "map DecidedMessage instances = map Some ds"
    and "sorted_wrt (<) (map (\<lambda>d. Height (Message d)) ds)"
    and "\<forall>d \<in> set ds. from \<le> Height (Message d) \<and> Height (Message d) \<le> from + maxBatchSize"
    and "\<forall>x. encodeErr x = None"
  shows "clampHeights maxBatchSize (ParamsHeight params) = Inr [from, from + maxBatchSize] \<and>
     HistoryHandler (Some getInstancesInRange) encodeErr maxBatchSize (sm, None) =
       Response
         (if ds = []
          then sm\<lparr>Params := Some (params\<lparr>ParamsHeight := [from, from + maxBatchSize]\<rparr>),
                  Status := StatusNotFound\<rparr>
          else sm\<lparr>SyncData := map Some ds,
                  Params := Some (params\<lparr>ParamsHeight :=
                    (if 1 < length ds
                     then [Height (Message (hd ds)), Height (Message (last ds))]
                     else [Height (Message (hd ds))])\<rparr>),
                  Status := StatusSuccess\<rparr>) \<and>
     length ds \<le> unat maxBatchSize + 1"
proof -
  have clamp: "clampHeights maxBatchSize (ParamsHeight params) = Inr [from, from + maxBatchSize]"
    unfolding assms(3) using assms(4-7) by (rule clampHeights_window)
  let ?sm1 = "sm\<lparr>Params := Some (params\<lparr>ParamsHeight := [from, from + maxBatchSize]\<rparr>)\<rparr>"
  have upd: "UpdateResults None (map Some ds) ?sm1 =
      Inr (if ds = [] then ?sm1\<lparr>Status := StatusNotFound\<rparr>
           else sm\<lparr>SyncData := map Some ds,
                  Params := Some (params\<lparr>ParamsHeight :=
                    (if 1 < length ds
                     then [Height (Message (hd ds)), Height (Message (last ds))]
                     else [Height (Message (hd ds))])\<rparr>),
                  Status := StatusSuccess\<rparr>)"
  proof (cases "ds = []")
    case True
    then show ?thesis by (simp add: UpdateResults_def)
  next
    case False
    have "Params ?sm1 = Some (params\<lparr>ParamsHeight := [from, from + maxBatchSize]\<rparr>)" by simp
    from UpdateResults_found [OF False this] False show ?thesis by simp
  qed
  have resp: "HistoryHandler (Some getInstancesInRange) encodeErr maxBatchSize (sm, None) =
      Response (if ds = [] then ?sm1\<lparr>Status := StatusNotFound\<rparr>
           else sm\<lparr>SyncData := map Some ds,
                  Params := Some (params\<lparr>ParamsHeight :=
                    (if 1 < length ds
                     then [Height (Message (hd ds)), Height (Message (last ds))]
                     else [Height (Message (hd ds))])\<rparr>),
                  Status := StatusSuccess\<rparr>)"
    using assms(1,2,8,9,12) clamp upd
    by (simp add: HistoryHandler_def Let_def)
  have "unat to < 2 ^ 64" using unsigned_less [of to, where ?'a = nat] by simp
  with assms(6) have room: "unat from + unat maxBatchSize < 2 ^ 64" by simp
  have "\<forall>w \<in> set (map (\<lambda>d. Height (Message d)) ds). from \<le> w \<and> w \<le> from + maxBatchSize"
    using assms(11) by auto
  from window_length [OF assms(10) this room]
  have len: "length ds \<le> unat maxBatchSize + 1" by simp
  from clamp resp len show ?thesis by simp
qed

theorem HistoryHandler_clamps_witness:
  "unat (25 :: 64 word) < 2 ^ 63 \<and> (0 :: 64 word) \<le> 1000 \<and>
   unat (25 :: 64 word) < unat (1000 :: 64 word) - unat (0 :: 64 word) \<and>
   unat (1000 :: 64 word) - unat (0 :: 64 word) < 2 ^ 63 \<and>
   storeOf [decidedAt 0, decidedAt 1, decidedAt 2, decidedAt 30] 0 (0 + 25) =
     ([decidedAt 0, decidedAt 1, decidedAt 2], None) \<and>
   clampHeights 25 [0, 1000] = Inr [0, 25] \<and>
   HistoryHandler (Some (storeOf [decidedAt 0, decidedAt 1, decidedAt 2, decidedAt 30]))
       (\<lambda>x. None) 25 (historyRequest 0 1000, None) =
     Response ((historyRequest 0 2)\<lparr>
       SyncData := map (\<lambda>h. Some (signedBy [1, 2, 3] CommitMsgType h 1 [1, 2, 3, 4])) [0, 1, 2],
       Status := StatusSuccess\<rparr>) \<and>
   length [0, 1, 2 :: 64 word] \<le> unat (25 :: 64 word) + 1"
proof -
  let ?store = "storeOf [decidedAt 0, decidedAt 1, decidedAt 2, decidedAt 30]"
  let ?ds = "map (\<lambda>h. signedBy [1, 2, 3] CommitMsgType h 1 [1, 2, 3, 4]) [0, 1, 2]"
  let ?params = "\<lparr>ParamsHeight = [0, 1000], ParamsIdentifier = [7]\<rparr>"
  have p1: "Protocol (historyRequest 0 1000) = DecidedHistoryType"
    and p2: "Params (historyRequest 0 1000) = Some ?params"
    by (simp_all add: historyRequest_def)
  have p3: "ParamsHeight ?params = [0, 1000]" by simp
  have b1: "unat (25 :: 64 word) < 2 ^ 63" by simp
  have b2: "(0 :: 64 word) \<le> 1000" by simp
  have b3: "unat (25 :: 64 word) < unat (1000 :: 64 word) - unat (0 :: 64 word)" by simp
  have b4: "unat (1000 :: 64 word) - unat (0 :: 64 word) < 2 ^ 63" by simp
  have s: "?store 0 (0 + 25) = ([decidedAt 0, decidedAt 1, decidedAt 2], None)"
    by (simp add: storeOf_def decidedAt_def signedBy_def)
  have m: "map DecidedMessage [decidedAt 0, decidedAt 1, decidedAt 2] = map Some ?ds"
    by (simp add: decidedAt_def)
  have a: "sorted_wrt (<) (map (\<lambda>d. Height (Message d)) ?ds)"
    by (simp add: signedBy_def)
  have w: "\<forall>d \<in> set ?ds. 0 \<le> Height (Message d) \<and> Height (Message d) \<le> 0 + 25"
    by (simp add: signedBy_def)
  have e: "\<forall>x :: SyncMessage. (\<lambda>x. None :: string option) x = None" by simp
  from HistoryHandler_clamps [of "historyRequest 0 1000" ?params 0 1000 25 ?store
      "[decidedAt 0, decidedAt 1, decidedAt 2]" ?ds "\<lambda>x. None",
      OF p1 p2 p3 b1 b2 b3 b4 s m a w e]
  have "clampHeights 25 [0, 1000] = Inr [0, 0 + 25] \<and>
     HistoryHandler (Some ?store) (\<lambda>x. None) 25 (historyRequest 0 1000, None) =
       Response ((historyRequest 0 1000)\<lparr>SyncData := map Some ?ds,
          Params := Some (?params\<lparr>ParamsHeight :=
             [Height (Message (hd ?ds)), Height (Message (last ?ds))]\<rparr>),
          Status := StatusSuccess\<rparr>) \<and>
     length ?ds \<le> unat (25 :: 64 word) + 1"
    by simp
  then have "clampHeights 25 [0, 1000] = Inr [0, 25] \<and>
     HistoryHandler (Some ?store) (\<lambda>x. None) 25 (historyRequest 0 1000, None) =
       Response ((historyRequest 0 2)\<lparr>
         SyncData := map (\<lambda>h. Some (signedBy [1, 2, 3] CommitMsgType h 1 [1, 2, 3, 4])) [0, 1, 2],
         Status := StatusSuccess\<rparr>)"
    by (simp add: historyRequest_def signedBy_def)
  with b1 b2 b3 b4 s show ?thesis by simp
qed

text \<open>The claim as stated fails: a peer whose decided messages are at heights 30 and
  40 answers the request for \<open>[0, 1000]\<close> with \<open>maxBatchSize = 25\<close> by the status
  \<open>NotFound\<close>, no data and the clamped bounds \<open>[0, 25]\<close>, not by \<open>Success\<close>.\<close>

theorem HistoryHandler_not_found:
  "HistoryHandler (Some (storeOf [decidedAt 30, decidedAt 40])) (\<lambda>x. None) 25
       (historyRequest 0 1000, None) =
     Response ((historyRequest 0 25)\<lparr>Status := StatusNotFound\<rparr>)"
  by (simp add: HistoryHandler_def clampHeights_def UpdateResults_def storeOf_def
        decidedAt_def signedBy_def historyRequest_def Let_def)

subsection \<open>C2: the justification of a proposal\<close>

lemma validateRoundChanges_None:
  "validateRoundChanges p rcs = None \<longleftrightarrow> (\<forall>rc \<in> set rcs. p rc = None)"
  by (induction rcs) (auto split: option.splits)

lemma validatePrepares_None:
  "validatePrepares lib prepares h r v share = None \<longleftrightarrow>
     (\<forall>p \<in> set prepares. validateRoundChangeJustification lib p h r v share = None)"
  by (induction prepares) (auto split: option.splits)

lemma previouslyPrepared_False:
  "previouslyPrepared lib rcs = Inr False \<longleftrightarrow>
     (\<forall>rc \<in> set rcs. \<exists>d. GetRoundChangeData lib (Message rc) = Inr d \<and> \<not> Prepared lib d)"
  by (induction rcs) (auto split: sum.splits)

lemma previouslyPrepared_total:
  "\<forall>rc \<in> set rcs. \<exists>d. GetRoundChangeData lib (Message rc) = Inr d \<Longrightarrow>
   \<exists>b. previouslyPrepared lib rcs = Inr b"
  by (induction rcs) (auto split: sum.splits)

lemma highestPreparedLoop_decodes:
  "highestPreparedLoop lib rcs ret = Inr x \<Longrightarrow>
   \<forall>rc \<in> set rcs. \<exists>d. GetRoundChangeData lib (Message rc) = Inr d"
  by (induction rcs arbitrary: ret)
     (auto split: sum.splits option.splits if_splits)

lemma preparedRoundOf_Some:
  "preparedRoundOf lib rc = Some k \<longleftrightarrow>
     (\<exists>d. GetRoundChangeData lib (Message rc) = Inr d \<and> Prepared lib d \<and> RCPreparedRound d = k)"
  by (auto simp: preparedRoundOf_def split: sum.splits)

lemma preparedRoundOf_None:
  "GetRoundChangeData lib (Message rc) = Inr d \<Longrightarrow>
   preparedRoundOf lib rc = None \<longleftrightarrow> \<not> Prepared lib d"
  by (simp add: preparedRoundOf_def)

lemma highestPreparedLoop_Some:
  assumes "highestPreparedLoop lib rcs (Some r) = Inr x" and "preparedRoundOf lib r = Some k"
  shows "\<exists>h. x = Some h \<and>
     ((h = r \<and> (\<forall>rc \<in> set rcs. \<forall>q. preparedRoundOf lib rc = Some q \<longrightarrow> q \<le> k)) \<or>
      (\<exists>before after k'. rcs = before @ h # after \<and> preparedRoundOf lib h = Some k' \<and> k < k' \<and>
         (\<forall>rc \<in> set before. \<forall>q. preparedRoundOf lib rc = Some q \<longrightarrow> q < k') \<and>
         (\<forall>rc \<in> set after. \<forall>q. preparedRoundOf lib rc = Some q \<longrightarrow> q \<le> k')))"
  using assms
proof (induction rcs arbitrary: r k)
  case Nil
  then show ?case by auto
next
  case (Cons rc rcs)
  from Cons.prems(2) obtain dr where
    dr: "GetRoundChangeData lib (Message r) = Inr dr" "Prepared lib dr" "RCPreparedRound dr = k"
    by (auto simp: preparedRoundOf_Some)
  from Cons.prems(1) obtain d where d: "GetRoundChangeData lib (Message rc) = Inr d"
    by (auto split: sum.splits)
  show ?case
  proof (cases "Prepared lib d")
    case False
    with d have none: "preparedRoundOf lib rc = None" by (simp add: preparedRoundOf_def)
    from False d Cons.prems(1) have run: "highestPreparedLoop lib rcs (Some r) = Inr x" by simp
    from Cons.IH [OF run Cons.prems(2)] obtain h where h: "x = Some h" and
      alt: "(h = r \<and> (\<forall>rc \<in> set rcs. \<forall>q. preparedRoundOf lib rc = Some q \<longrightarrow> q \<le> k)) \<or>
        (\<exists>before after k'. rcs = before @ h # after \<and> preparedRoundOf lib h = Some k' \<and> k < k' \<and>
           (\<forall>rc \<in> set before. \<forall>q. preparedRoundOf lib rc = Some q \<longrightarrow> q < k') \<and>
           (\<forall>rc \<in> set after. \<forall>q. preparedRoundOf lib rc = Some q \<longrightarrow> q \<le> k'))"
      by blast
    from alt show ?thesis
    proof
      assume "h = r \<and> (\<forall>rc \<in> set rcs. \<forall>q. preparedRoundOf lib rc = Some q \<longrightarrow> q \<le> k)"
      with none h show ?thesis by auto
    next
      assume "\<exists>before after k'. rcs = before @ h # after \<and> preparedRoundOf lib h = Some k' \<and> k < k' \<and>
           (\<forall>rc \<in> set before. \<forall>q. preparedRoundOf lib rc = Some q \<longrightarrow> q < k') \<and>
           (\<forall>rc \<in> set after. \<forall>q. preparedRoundOf lib rc = Some q \<longrightarrow> q \<le> k')"
      then obtain before after k' where
        dec: "rcs = before @ h # after" "preparedRoundOf lib h = Some k'" "k < k'"
             "\<forall>rc \<in> set before. \<forall>q. preparedRoundOf lib rc = Some q \<longrightarrow> q < k'"
             "\<forall>rc \<in> set after. \<forall>q. preparedRoundOf lib rc = Some q \<longrightarrow> q \<le> k'"
        by blast
      have "rc # rcs = (rc # before) @ h # after" using dec(1) by simp
      moreover have "\<forall>rc' \<in> set (rc # before). \<forall>q. preparedRoundOf lib rc' = Some q \<longrightarrow> q < k'"
        using dec(4) none by auto
      ultimately show ?thesis using h dec(2,3,5) by blast
    qed
  next
    case True
    with d have q: "preparedRoundOf lib rc = Some (RCPreparedRound d)"
      by (simp add: preparedRoundOf_def)
    show ?thesis
    proof (cases "k < RCPreparedRound d")
      case higher: True
      with True d dr Cons.prems(1) have run: "highestPreparedLoop lib rcs (Some rc) = Inr x"
        by simp
      from Cons.IH [OF run q] obtain h where h: "x = Some h" and
        alt: "(h = rc \<and> (\<forall>rc' \<in> set rcs. \<forall>q. preparedRoundOf lib rc' = Some q \<longrightarrow>
                 q \<le> RCPreparedRound d)) \<or>
          (\<exists>before after k'. rcs = before @ h # after \<and> preparedRoundOf lib h = Some k' \<and>
             RCPreparedRound d < k' \<and>
             (\<forall>rc \<in> set before. \<forall>q. preparedRoundOf lib rc = Some q \<longrightarrow> q < k') \<and>
             (\<forall>rc \<in> set after. \<forall>q. preparedRoundOf lib rc = Some q \<longrightarrow> q \<le> k'))"
        by blast
      from alt show ?thesis
      proof
        assume a: "h = rc \<and> (\<forall>rc' \<in> set rcs. \<forall>q. preparedRoundOf lib rc' = Some q \<longrightarrow>
                 q \<le> RCPreparedRound d)"
        have "rc # rcs = [] @ h # rcs" using a by simp
        moreover have "\<forall>rc' \<in> set ([] :: SignedMessage list). \<forall>q.
            preparedRoundOf lib rc' = Some q \<longrightarrow> q < RCPreparedRound d"
          by simp
        ultimately show ?thesis using h a q higher by blast
      next
        assume "\<exists>before after k'. rcs = before @ h # after \<and> preparedRoundOf lib h = Some k' \<and>
             RCPreparedRound d < k' \<and>
             (\<forall>rc \<in> set before. \<forall>q. preparedRoundOf lib rc = Some q \<longrightarrow> q < k') \<and>
             (\<forall>rc \<in> set after. \<forall>q. preparedRoundOf lib rc = Some q \<longrightarrow> q \<le> k')"
        then obtain before after k' where
          dec: "rcs = before @ h # after" "preparedRoundOf lib h = Some k'" "RCPreparedRound d < k'"
               "\<forall>rc \<in> set before. \<forall>q. preparedRoundOf lib rc = Some q \<longrightarrow> q < k'"
               "\<forall>rc \<in> set after. \<forall>q. preparedRoundOf lib rc = Some q \<longrightarrow> q \<le> k'"
          by blast
        have "rc # rcs = (rc # before) @ h # after" using dec(1) by simp
        moreover have "\<forall>rc' \<in> set (rc # before). \<forall>q. preparedRoundOf lib rc' = Some q \<longrightarrow> q < k'"
          using dec(3,4) q by auto
        moreover have "k < k'" using higher dec(3) by simp
        ultimately show ?thesis using h dec(2,5) by blast
      qed
    next
      case lower: False
      with True d dr Cons.prems(1) have run: "highestPreparedLoop lib rcs (Some r) = Inr x"
        by simp
      from Cons.IH [OF run Cons.prems(2)] obtain h where h: "x = Some h" and
        alt: "(h = r \<and> (\<forall>rc \<in> set rcs. \<forall>q. preparedRoundOf lib rc = Some q \<longrightarrow> q \<le> k)) \<or>
          (\<exists>before after k'. rcs = before @ h # after \<and> preparedRoundOf lib h = Some k' \<and> k < k' \<and>
             (\<forall>rc \<in> set before. \<forall>q. preparedRoundOf lib rc = Some q \<longrightarrow> q < k') \<and>
             (\<forall>rc \<in> set after. \<forall>q. preparedRoundOf lib rc = Some q \<longrightarrow> q \<le> k'))"
        by blast
      from alt show ?thesis
      proof
        assume "h = r \<and> (\<forall>rc \<in> set rcs. \<forall>q. preparedRoundOf lib rc = Some q \<longrightarrow> q \<le> k)"
        with q lower h show ?thesis by auto
      next
        assume "\<exists>before after k'. rcs = before @ h # after \<and> preparedRoundOf lib h = Some k' \<and> k < k' \<and>
             (\<forall>rc \<in> set before. \<forall>q. preparedRoundOf lib rc = Some q \<longrightarrow> q < k') \<and>
             (\<forall>rc \<in> set after. \<forall>q. preparedRoundOf lib rc = Some q \<longrightarrow> q \<le> k')"
        then obtain before after k' where
          dec: "rcs = before @ h # after" "preparedRoundOf lib h = Some k'" "k < k'"
               "\<forall>rc \<in> set before. \<forall>q. preparedRoundOf lib rc = Some q \<longrightarrow> q < k'"
               "\<forall>rc \<in> set after. \<forall>q. preparedRoundOf lib rc = Some q \<longrightarrow> q \<le> k'"
          by blast
        have "rc # rcs = (rc # before) @ h # after" using dec(1) by simp
        moreover have "\<forall>rc' \<in> set (rc # before). \<forall>q. preparedRoundOf lib rc' = Some q \<longrightarrow> q < k'"
          using dec(3,4) q lower by auto
        ultimately show ?thesis using h dec(2,3,5) by blast
      qed
    qed
  qed
qed

lemma highestPreparedLoop_None:
  assumes "highestPreparedLoop lib rcs None = Inr x"
  shows "(x = None \<and> (\<forall>rc \<in> set rcs. preparedRoundOf lib rc = None)) \<or>
     (\<exists>h before after k. x = Some h \<and> rcs = before @ h # after \<and>
        preparedRoundOf lib h = Some k \<and>
        (\<forall>rc \<in> set before. \<forall>q. preparedRoundOf lib rc = Some q \<longrightarrow> q < k) \<and>
        (\<forall>rc \<in> set after. \<forall>q. preparedRoundOf lib rc = Some q \<longrightarrow> q \<le> k))"
  using assms
proof (induction rcs)
  case Nil
  then show ?case by simp
next
  case (Cons rc rcs)
  from Cons.prems obtain d where d: "GetRoundChangeData lib (Message rc) = Inr d"
    by (auto split: sum.splits)
  show ?case
  proof (cases "Prepared lib d")
    case False
    with d have none: "preparedRoundOf lib rc = None" by (simp add: preparedRoundOf_def)
    from False d Cons.prems have run: "highestPreparedLoop lib rcs None = Inr x" by simp
    from Cons.IH [OF run] show ?thesis
    proof
      assume "x = None \<and> (\<forall>rc \<in> set rcs. preparedRoundOf lib rc = None)"
      with none show ?thesis by simp
    next
      assume "\<exists>h before after k. x = Some h \<and> rcs = before @ h # after \<and>
        preparedRoundOf lib h = Some k \<and>
        (\<forall>rc \<in> set before. \<forall>q. preparedRoundOf lib rc = Some q \<longrightarrow> q < k) \<and>
        (\<forall>rc \<in> set after. \<forall>q. preparedRoundOf lib rc = Some q \<longrightarrow> q \<le> k)"
      then obtain h before after k where
        dec: "x = Some h" "rcs = before @ h # after" "preparedRoundOf lib h = Some k"
             "\<forall>rc \<in> set before. \<forall>q. preparedRoundOf lib rc = Some q \<longrightarrow> q < k"
             "\<forall>rc \<in> set after. \<forall>q. preparedRoundOf lib rc = Some q \<longrightarrow> q \<le> k"
        by blast
      have "rc # rcs = (rc # before) @ h # after" using dec(2) by simp
      moreover have "\<forall>rc' \<in> set (rc # before). \<forall>q. preparedRoundOf lib rc' = Some q \<longrightarrow> q < k"
        using dec(4) none by auto
      ultimately show ?thesis using dec(1,3,5) by blast
    qed
  next
    case True
    with d have q: "preparedRoundOf lib rc = Some (RCPreparedRound d)"
      by (simp add: preparedRoundOf_def)
    from True d Cons.prems have run: "highestPreparedLoop lib rcs (Some rc) = Inr x" by simp
    from highestPreparedLoop_Some [OF run q] obtain h where h: "x = Some h" and
      alt: "(h = rc \<and> (\<forall>rc' \<in> set rcs. \<forall>q. preparedRoundOf lib rc' = Some q \<longrightarrow>
               q \<le> RCPreparedRound d)) \<or>
        (\<exists>before after k'. rcs = before @ h # after \<and> preparedRoundOf lib h = Some k' \<and>
           RCPreparedRound d < k' \<and>
           (\<forall>rc \<in> set before. \<forall>q. preparedRoundOf lib rc = Some q \<longrightarrow> q < k') \<and>
           (\<forall>rc \<in> set after. \<forall>q. preparedRoundOf lib rc = Some q \<longrightarrow> q \<le> k'))"
      by blast
    from alt show ?thesis
    proof
      assume a: "h = rc \<and> (\<forall>rc' \<in> set rcs. \<forall>q. preparedRoundOf lib rc' = Some q \<longrightarrow>
               q \<le> RCPreparedRound d)"
      have "rc # rcs = [] @ h # rcs" using a by simp
      moreover have "\<forall>rc' \<in> set ([] :: SignedMessage list). \<forall>q.
          preparedRoundOf lib rc' = Some q \<longrightarrow> q < RCPreparedRound d"
        by simp
      ultimately show ?thesis using h a q by blast
    next
      assume "\<exists>before after k'. rcs = before @ h # after \<and> preparedRoundOf lib h = Some k' \<and>
           RCPreparedRound d < k' \<and>
           (\<forall>rc \<in> set before. \<forall>q. preparedRoundOf lib rc = Some q \<longrightarrow> q < k') \<and>
           (\<forall>rc \<in> set after. \<forall>q. preparedRoundOf lib rc = Some q \<longrightarrow> q \<le> k')"
      then obtain before after k' where
        dec: "rcs = before @ h # after" "preparedRoundOf lib h = Some k'" "RCPreparedRound d < k'"
             "\<forall>rc \<in> set before. \<forall>q. preparedRoundOf lib rc = Some q \<longrightarrow> q < k'"
             "\<forall>rc \<in> set after. \<forall>q. preparedRoundOf lib rc = Some q \<longrightarrow> q \<le> k'"
        by blast
      have "rc # rcs = (rc # before) @ h # after" using dec(1) by simp
      moreover have "\<forall>rc' \<in> set (rc # before). \<forall>q. preparedRoundOf lib rc' = Some q \<longrightarrow> q < k'"
        using dec(3,4) q by auto
      ultimately show ?thesis using h dec(2,5) by blast
    qed
  qed
qed

lemma highestPrepared_first_of_maximum:
  assumes "highestPrepared lib rcs = Inr (Some h)"
  shows "\<exists>before after k. rcs = before @ h # after \<and> preparedRoundOf lib h = Some k \<and>
        (\<forall>rc \<in> set before. \<forall>q. preparedRoundOf lib rc = Some q \<longrightarrow> q < k) \<and>
        (\<forall>rc \<in> set after. \<forall>q. preparedRoundOf lib rc = Some q \<longrightarrow> q \<le> k)"
  using highestPreparedLoop_None [of lib rcs "Some h"] assms
  by (auto simp: highestPrepared_def)

lemma Justify_characterised:
  "Justify lib share state round rcs prepares v = None \<longleftrightarrow>
     round = 1 \<or>
     ((\<forall>rc \<in> set rcs. roundChangePipeline lib share state round rc = None) \<and>
      HasQuorumMsgs share rcs \<and>
      (\<forall>rc \<in> set rcs. \<exists>d. GetRoundChangeData lib (Message rc) = Inr d) \<and>
      ((\<forall>rc \<in> set rcs. preparedRoundOf lib rc = None) \<or>
       (HasQuorumMsgs share prepares \<and>
        (\<exists>h d. highestPrepared lib rcs = Inr (Some h) \<and>
           GetRoundChangeData lib (Message h) = Inr d \<and> v = RCPreparedValue d \<and>
           (\<forall>p \<in> set prepares.
              validateRoundChangeJustification lib p (StateHeight state) (RCPreparedRound d)
                (RCPreparedValue d) share = None)))))"
  (is "?L \<longleftrightarrow> round = 1 \<or> ?R")
proof (cases "round = 1")
  case True
  then show ?thesis by (simp add: Justify_def)
next
  case r: False
  have unprep: "(\<forall>rc \<in> set rcs. \<exists>d. GetRoundChangeData lib (Message rc) = Inr d \<and> \<not> Prepared lib d)
      \<longleftrightarrow> (\<forall>rc \<in> set rcs. \<exists>d. GetRoundChangeData lib (Message rc) = Inr d) \<and>
          (\<forall>rc \<in> set rcs. preparedRoundOf lib rc = None)"
    by (auto simp: preparedRoundOf_def split: sum.splits) (metis sum.inject(2))+
  show ?thesis
  proof
    assume L: ?L
    from L r have v1: "\<forall>rc \<in> set rcs. roundChangePipeline lib share state round rc = None"
      by (auto simp: Justify_def validateRoundChanges_None split: option.splits)
    with L r have q1: "HasQuorumMsgs share rcs"
      by (auto simp: Justify_def validateRoundChanges_None [symmetric] split: option.splits if_splits)
    from v1 have vr: "validateRoundChanges (roundChangePipeline lib share state round) rcs = None"
      by (simp add: validateRoundChanges_None)
    from L r vr q1 obtain prev where prev: "previouslyPrepared lib rcs = Inr prev"
      by (auto simp: Justify_def split: sum.splits)
    show "round = 1 \<or> ?R"
    proof (cases prev)
      case False
      with prev have "\<forall>rc \<in> set rcs. \<exists>d. GetRoundChangeData lib (Message rc) = Inr d \<and> \<not> Prepared lib d"
        by (simp add: previouslyPrepared_False)
      with unprep v1 q1 show ?thesis by blast
    next
      case True
      with L r vr q1 prev have q2: "HasQuorumMsgs share prepares"
        by (auto simp: Justify_def split: if_splits)
      with L r vr q1 prev True obtain h d where
        h: "highestPrepared lib rcs = Inr (Some h)" and
        d: "GetRoundChangeData lib (Message h) = Inr d" and
        rest: "v = RCPreparedValue d"
              "validatePrepares lib prepares (StateHeight state) (RCPreparedRound d)
                 (RCPreparedValue d) share = None"
        by (auto simp: Justify_def split: sum.splits option.splits if_splits)
      from h have dec: "\<forall>rc \<in> set rcs. \<exists>d. GetRoundChangeData lib (Message rc) = Inr d"
        unfolding highestPrepared_def by (rule highestPreparedLoop_decodes)
      from rest(2) have "\<forall>p \<in> set prepares.
          validateRoundChangeJustification lib p (StateHeight state) (RCPreparedRound d)
            (RCPreparedValue d) share = None"
        by (simp add: validatePrepares_None)
      with v1 q1 dec q2 h d rest(1) show ?thesis by blast
    qed
  next
    assume "round = 1 \<or> ?R"
    with r have R: ?R by simp
    then have vr: "validateRoundChanges (roundChangePipeline lib share state round) rcs = None"
      by (simp add: validateRoundChanges_None)
    from R have q1: "HasQuorumMsgs share rcs" by blast
    from R have dec: "\<forall>rc \<in> set rcs. \<exists>d. GetRoundChangeData lib (Message rc) = Inr d" by blast
    from previouslyPrepared_total [OF dec] obtain prev where
      prev: "previouslyPrepared lib rcs = Inr prev" by blast
    show ?L
    proof (cases prev)
      case False
      with r vr q1 prev show ?thesis by (simp add: Justify_def)
    next
      case True
      with prev have "\<not> (\<forall>rc \<in> set rcs. \<exists>d. GetRoundChangeData lib (Message rc) = Inr d \<and>
          \<not> Prepared lib d)"
        using previouslyPrepared_False [of lib rcs] by auto
      with unprep dec have "\<not> (\<forall>rc \<in> set rcs. preparedRoundOf lib rc = None)" by blast
      with R obtain h d where
        q2: "HasQuorumMsgs share prepares" and
        h: "highestPrepared lib rcs = Inr (Some h)" and
        d: "GetRoundChangeData lib (Message h) = Inr d" and
        val: "v = RCPreparedValue d" and
        ps: "\<forall>p \<in> set prepares.
              validateRoundChangeJustification lib p (StateHeight state) (RCPreparedRound d)
                (RCPreparedValue d) share = None"
        by blast
      from ps have "validatePrepares lib prepares (StateHeight state) (RCPreparedRound d)
          (RCPreparedValue d) share = None"
        by (simp add: validatePrepares_None)
      with r vr q1 prev True q2 h d val show ?thesis by (simp add: Justify_def)
    qed
  qed
qed

lemma Combine_None: "Combine ps m = None \<longleftrightarrow> (\<forall>p \<in> set ps. p m = None)"
  by (induction ps) (auto split: option.splits)

lemma roundChangePipeline_None:
  "roundChangePipeline lib share state round rc = None \<Longrightarrow>
   MsgType (Message rc) = RoundChangeMsgType \<and> Height (Message rc) = StateHeight state \<and>
   Round (Message rc) = round"
  unfolding roundChangePipeline_def Combine_None
  by (auto simp: MsgTypeCheck_def ValidateSequenceNumber_def ValidateRound_def
        split: if_splits)

text \<open>C2 (amended). For round 1 \<open>Justify\<close> succeeds for any value. For another round it
  succeeds if and only if every accompanying round change passes the validation (so is
  a round change for the height and the round) and decodes, the unique signers of the
  round changes reach the quorum, and either no round change is prepared, or the unique
  signers of the accompanying prepares reach the quorum, the value is the prepared
  value of the round change that \<open>highestPrepared\<close> returns, and every accompanying
  prepare is valid for the height, that round change's prepared round and its prepared
  value. \<open>highestPrepared\<close> returns the first of the round changes of maximum prepared
  round: the prepared rounds before it are lower, those after it are not higher.\<close>

theorem Justify_iff:
  "(Justify lib share state round rcs prepares v = None \<longleftrightarrow>
     round = 1 \<or>
     ((\<forall>rc \<in> set rcs. roundChangePipeline lib share state round rc = None) \<and>
      HasQuorumMsgs share rcs \<and>
      (\<forall>rc \<in> set rcs. \<exists>d. GetRoundChangeData lib (Message rc) = Inr d) \<and>
      ((\<forall>rc \<in> set rcs. preparedRoundOf lib rc = None) \<or>
       (HasQuorumMsgs share prepares \<and>
        (\<exists>h d. highestPrepared lib rcs = Inr (Some h) \<and>
           GetRoundChangeData lib (Message h) = Inr d \<and> v = RCPreparedValue d \<and>
           (\<forall>p \<in> set prepares.
              validateRoundChangeJustification lib p (StateHeight state) (RCPreparedRound d)
                (RCPreparedValue d) share = None)))))) \<and>
   (\<forall>h. highestPrepared lib rcs = Inr (Some h) \<longrightarrow>
      (\<exists>before after k. rcs = before @ h # after \<and> preparedRoundOf lib h = Some k \<and>
         (\<forall>rc \<in> set before. \<forall>q. preparedRoundOf lib rc = Some q \<longrightarrow> q < k) \<and>
         (\<forall>rc \<in> set after. \<forall>q. preparedRoundOf lib rc = Some q \<longrightarrow> q \<le> k))) \<and>
   (\<forall>rc. roundChangePipeline lib share state round rc = None \<longrightarrow>
      MsgType (Message rc) = RoundChangeMsgType \<and> Height (Message rc) = StateHeight state \<and>
      Round (Message rc) = round)"
  using Justify_characterised [of lib share state round rcs prepares v]
    highestPrepared_first_of_maximum [of lib rcs]
    roundChangePipeline_None [of lib share state round]
  by blast

theorem Justify_iff_witness:
  "Justify exampleLib committeeOfFour freshState 2 tiedRoundChanges (preparesFor [5]) [5] = None \<and>
   highestPrepared exampleLib tiedRoundChanges =
     Inr (Some (signedBy [1] RoundChangeMsgType 0 2 [1, 5])) \<and>
   HasQuorumMsgs committeeOfFour tiedRoundChanges \<and>
   list_all (\<lambda>rc. roundChangePipeline exampleLib committeeOfFour freshState 2 rc = None)
     tiedRoundChanges \<and>
   list_all (\<lambda>rc. Round (Message rc) = 2) tiedRoundChanges"
proof -
  have j: "Justify exampleLib committeeOfFour freshState 2 tiedRoundChanges (preparesFor [5]) [5] = None"
    by (simp add: Justify_def exampleLib_def committeeOfFour_def freshState_def
          tiedRoundChanges_def preparesFor_def signedBy_def roundChangePipeline_def
          MsgTypeCheck_def ValidateSequenceNumber_def ValidateRound_def HasQuorumMsgs_def
          HasQuorum_def uniqueSigners_def highestPrepared_def
          validateRoundChangeJustification_def Let_def)
  have hp: "highestPrepared exampleLib tiedRoundChanges =
      Inr (Some (signedBy [1] RoundChangeMsgType 0 2 [1, 5]))"
    by (simp add: highestPrepared_def exampleLib_def tiedRoundChanges_def signedBy_def)
  note inst = Justify_iff [of exampleLib committeeOfFour freshState 2 tiedRoundChanges
      "preparesFor [5]" "[5]"]
  from inst j have
    a: "\<forall>rc \<in> set tiedRoundChanges.
          roundChangePipeline exampleLib committeeOfFour freshState 2 rc = None" and
    q: "HasQuorumMsgs committeeOfFour tiedRoundChanges"
    by auto
  from inst a have "\<forall>rc \<in> set tiedRoundChanges. Round (Message rc) = 2" by blast
  with j hp a q show ?thesis by (simp add: list_all_iff)
qed

text \<open>The claim as stated fails: the first two round changes carry the same prepared
  round 1 with the values \<open>[5]\<close> and \<open>[6]\<close>. The proposal of \<open>[6]\<close> with a quorum of
  valid prepares for round 1 and \<open>[6]\<close> meets the claim's condition (the second round
  change has the maximum prepared round and the proposed value), and \<open>Justify\<close> rejects
  it, because it compares the value with the first round change's.\<close>

theorem Justify_rejects_tied_value:
  "JustifyProposal_spec exampleLib committeeOfFour freshState 2 tiedRoundChanges
     (preparesFor [6]) [6] \<and>
   Justify exampleLib committeeOfFour freshState 2 tiedRoundChanges (preparesFor [6]) [6] =
     Some ''proposed data doesn't match highest prepared''"
  by (simp add: JustifyProposal_spec_def preparedRoundOf_def Justify_def exampleLib_def
        committeeOfFour_def freshState_def
        tiedRoundChanges_def preparesFor_def signedBy_def roundChangePipeline_def
        MsgTypeCheck_def ValidateSequenceNumber_def ValidateRound_def HasQuorumMsgs_def
        HasQuorum_def uniqueSigners_def highestPrepared_def
        validateRoundChangeJustification_def Let_def)

end
